theory Spec2Isabelle
  imports Complex_Main "HOL-Library.Log_Nat"
begin

section \<open>Numbers of the host language\<close>

text \<open>
  A number of the source is an IEEE 754 double; a sample in a \<^verbatim>\<open>Float32Array\<close> is a
  single-precision value. A finite value is the rational it denotes, and every arithmetic
  operation computes the exact result and rounds it to the nearest value of the format,
  ties to even, with gradual underflow and with overflow to infinity. \<^verbatim>\<open>NaN\<close> and
  the two infinities are values of their own. The two zeros are one value, \<open>Fin 0\<close>:
  no operation of the functions modelled here tells them apart except a division by a
  zero, and a zero divisor is taken to be \<open>+0\<close>.
\<close>

datatype jsnum = Fin rat | PInf | NInf | NaN

subsection \<open>Rounding to a binary format\<close>

text \<open>Round to the nearest integer, a tie going to the even one.\<close>

definition rhe :: "rat \<Rightarrow> int" where
  "rhe x = (let f = \<lfloor>x\<rfloor>; d = x - of_int f
            in if d < 1 / 2 then f else if 1 / 2 < d then f + 1
               else if even f then f else f + 1)"

text \<open>The binary exponent of a positive rational: \<open>2 powi (ilog2 x) \<le> x < 2 powi (ilog2 x + 1)\<close>.\<close>

definition ilog2 :: "rat \<Rightarrow> int" where
  "ilog2 x = (case quotient_of x of (a, b) \<Rightarrow>
                let d = bitlen a - bitlen b in if x < 2 powi d then d - 1 else d)"

text \<open>
  Rounding to the format with \<open>p\<close> significant bits and exponents from \<open>emin\<close> to
  \<open>emax\<close>: the spacing of the format's values around \<open>x\<close> is \<open>q\<close> (below
  \<open>2 powi emin\<close> it is the spacing of the subnormal values), \<open>x\<close> goes to the nearest
  multiple of \<open>q\<close>, and a result of magnitude \<open>2 powi (emax + 1)\<close> or more is an
  infinity.
\<close>

definition roundBinary :: "int \<Rightarrow> int \<Rightarrow> int \<Rightarrow> rat \<Rightarrow> jsnum" where
  "roundBinary p emin emax x =
     (if x = 0 then Fin 0
      else
        let e = max (ilog2 \<bar>x\<bar>) emin;
            q = 2 powi (e - p + 1);
            r = of_int (rhe (x / q)) * q
        in if 2 powi (emax + 1) \<le> \<bar>r\<bar> then (if 0 < x then PInf else NInf) else Fin r)"

definition rd64 :: "rat \<Rightarrow> jsnum" where
  "rd64 = roundBinary 53 (- 1022) 1023"

definition rd32 :: "rat \<Rightarrow> jsnum" where
  "rd32 = roundBinary 24 (- 126) 127"

subsection \<open>Arithmetic on doubles\<close>

fun jneg :: "jsnum \<Rightarrow> jsnum" where
  "jneg (Fin a) = Fin (- a)"
| "jneg PInf = NInf"
| "jneg NInf = PInf"
| "jneg NaN = NaN"

fun dadd :: "jsnum \<Rightarrow> jsnum \<Rightarrow> jsnum" where
  "dadd (Fin a) (Fin b) = rd64 (a + b)"
| "dadd NaN y = NaN"
| "dadd x NaN = NaN"
| "dadd PInf NInf = NaN"
| "dadd NInf PInf = NaN"
| "dadd PInf y = PInf"
| "dadd NInf y = NInf"
| "dadd (Fin a) y = y"

definition dsub :: "jsnum \<Rightarrow> jsnum \<Rightarrow> jsnum" where
  "dsub x y = dadd x (jneg y)"

fun dmul :: "jsnum \<Rightarrow> jsnum \<Rightarrow> jsnum" where
  "dmul (Fin a) (Fin b) = rd64 (a * b)"
| "dmul NaN y = NaN"
| "dmul x NaN = NaN"
| "dmul (Fin a) y = (if a = 0 then NaN else if 0 < a then y else jneg y)"
| "dmul x (Fin b) = (if b = 0 then NaN else if 0 < b then x else jneg x)"
| "dmul PInf y = y"
| "dmul NInf y = jneg y"

fun ddiv :: "jsnum \<Rightarrow> jsnum \<Rightarrow> jsnum" where
  "ddiv (Fin a) (Fin b) =
     (if b = 0 then (if a = 0 then NaN else if 0 < a then PInf else NInf)
      else rd64 (a / b))"
| "ddiv NaN y = NaN"
| "ddiv x NaN = NaN"
| "ddiv (Fin a) y = Fin 0"
| "ddiv PInf (Fin b) = (if 0 \<le> b then PInf else NInf)"
| "ddiv NInf (Fin b) = (if 0 \<le> b then NInf else PInf)"
| "ddiv PInf PInf = NaN"
| "ddiv PInf NInf = NaN"
| "ddiv NInf PInf = NaN"
| "ddiv NInf NInf = NaN"

text \<open>Storing a double in a \<^verbatim>\<open>Float32Array\<close> rounds it to single precision.\<close>

fun toFloat32 :: "jsnum \<Rightarrow> jsnum" where
  "toFloat32 (Fin a) = rd32 a"
| "toFloat32 x = x"

subsection \<open>\<^verbatim>\<open>Math.floor\<close>, \<^verbatim>\<open>Math.ceil\<close>, \<^verbatim>\<open>Math.round\<close>, \<^verbatim>\<open>Math.max\<close>, \<^verbatim>\<open>Math.min\<close>\<close>

text \<open>
  The three roundings to an integer are exact on a double; \<^verbatim>\<open>Math.round\<close> takes a
  tie upwards.
\<close>

fun jfloor :: "jsnum \<Rightarrow> jsnum" where
  "jfloor (Fin a) = Fin (of_int \<lfloor>a\<rfloor>)"
| "jfloor x = x"

fun jceil :: "jsnum \<Rightarrow> jsnum" where
  "jceil (Fin a) = Fin (of_int \<lceil>a\<rceil>)"
| "jceil x = x"

fun jround :: "jsnum \<Rightarrow> jsnum" where
  "jround (Fin a) = Fin (of_int \<lfloor>a + 1 / 2\<rfloor>)"
| "jround x = x"

fun jmax :: "jsnum \<Rightarrow> jsnum \<Rightarrow> jsnum" where
  "jmax (Fin a) (Fin b) = Fin (max a b)"
| "jmax NaN y = NaN"
| "jmax x NaN = NaN"
| "jmax PInf y = PInf"
| "jmax x PInf = PInf"
| "jmax NInf y = y"
| "jmax x NInf = x"

fun jmin :: "jsnum \<Rightarrow> jsnum \<Rightarrow> jsnum" where
  "jmin (Fin a) (Fin b) = Fin (min a b)"
| "jmin NaN y = NaN"
| "jmin x NaN = NaN"
| "jmin NInf y = NInf"
| "jmin x NInf = NInf"
| "jmin PInf y = y"
| "jmin x PInf = x"

subsection \<open>Typed arrays\<close>

text \<open>
  \<^verbatim>\<open>array[k]\<close> as an operand of arithmetic: the element when \<open>k\<close> is an integer
  and a valid index, \<^verbatim>\<open>undefined\<close> (hence \<^verbatim>\<open>NaN\<close>) for any other number.
\<close>

definition typed_get :: "jsnum list \<Rightarrow> jsnum \<Rightarrow> jsnum" where
  "typed_get xs k =
     (case k of
        Fin r \<Rightarrow>
          if r = of_int \<lfloor>r\<rfloor> \<and> 0 \<le> r \<and> r < of_nat (length xs) then xs ! nat \<lfloor>r\<rfloor> else NaN
      | _ \<Rightarrow> NaN)"

text \<open>
  \<^verbatim>\<open>new Float32Array(len)\<close>: \<^verbatim>\<open>NaN\<close> counts as \<open>0\<close>, a fraction is cut off,
  and a length that is negative, infinite, above \<open>2^53 - 1\<close> or above what the platform
  allocates raises a \<^verbatim>\<open>RangeError\<close>. \<open>maxLen\<close> is the largest length the platform
  allocates; the buffer comes filled with zeros.
\<close>

datatype js_error = RangeError

definition newFloat32Array :: "nat \<Rightarrow> jsnum \<Rightarrow> js_error + jsnum list" where
  "newFloat32Array maxLen len =
     (case len of
        NaN \<Rightarrow> Inr []
      | Fin r \<Rightarrow>
          let k = (if 0 \<le> r then \<lfloor>r\<rfloor> else \<lceil>r\<rceil>)
          in if k < 0 \<or> 2 ^ 53 - 1 < k \<or> int maxLen < k then Inl RangeError
             else Inr (replicate (nat k) (Fin 0))
      | _ \<Rightarrow> Inl RangeError)"

section \<open>Progress percentage\<close>

text \<open>\<^verbatim>\<open>clampProgress\<close>\<close>

definition clampProgress :: "rat \<Rightarrow> rat" where
  "clampProgress v = max 0 (min 100 v)"

section \<open>Audio normalizer\<close>

subsection \<open>\<^verbatim>\<open>downmixToMono\<close>\<close>

text \<open>
  An \<^verbatim>\<open>AudioBuffer\<close> of the platform: \<open>numberOfChannels\<close> channels of
  \<open>frameCount\<close> samples each (the source's field \<^verbatim>\<open>length\<close>). The platform
  guarantees the invariant \<open>wf_AudioBuffer\<close>; \<^verbatim>\<open>getChannelData(c)\<close> is
  \<open>channelData b ! c\<close>.
\<close>

record AudioBuffer =
  numberOfChannels :: nat
  frameCount :: nat
  channelData :: "jsnum list list"

definition wf_AudioBuffer :: "AudioBuffer \<Rightarrow> bool" where
  "wf_AudioBuffer b \<longleftrightarrow>
     0 < numberOfChannels b \<and>
     length (channelData b) = numberOfChannels b \<and>
     list_all (\<lambda>c. length c = frameCount b) (channelData b)"

text \<open>
  \<^verbatim>\<open>for (i = 0; i < length; i += 1) mono[i] += channelData[i]\<close>: the sum is a double,
  and the store into \<^verbatim>\<open>mono\<close> rounds it to single precision.
\<close>

definition addChannel :: "nat \<Rightarrow> jsnum list \<Rightarrow> jsnum list \<Rightarrow> jsnum list" where
  "addChannel len ch buf =
     fold (\<lambda>i m. m[i := toFloat32 (dadd (m ! i) (typed_get ch (Fin (of_nat i))))]) [0..<len] buf"

text \<open>\<^verbatim>\<open>for (i = 0; i < length; i += 1) mono[i] /= numberOfChannels\<close>\<close>

definition divideAll :: "nat \<Rightarrow> nat \<Rightarrow> jsnum list \<Rightarrow> jsnum list" where
  "divideAll len n buf =
     fold (\<lambda>i m. m[i := toFloat32 (ddiv (m ! i) (Fin (of_nat n)))]) [0..<len] buf"

text \<open>
  \<^verbatim>\<open>mono.set(src)\<close> on a fresh buffer: the source samples overwrite the buffer from
  index 0. (A source longer than the buffer raises a \<^verbatim>\<open>RangeError\<close>; a well-formed
  \<^verbatim>\<open>AudioBuffer\<close> has channels of exactly the buffer's length.)
\<close>

definition typed_set :: "jsnum list \<Rightarrow> jsnum list \<Rightarrow> jsnum list" where
  "typed_set buf src = src @ drop (length src) buf"

text \<open>
  The buffer \<^verbatim>\<open>mono\<close> has the length of the \<^verbatim>\<open>AudioBuffer\<close>, which the platform
  has allocated for each channel already.
\<close>

definition downmixToMono :: "AudioBuffer \<Rightarrow> jsnum list" where
  "downmixToMono b =
     (if numberOfChannels b = 1
      then typed_set (replicate (frameCount b) (Fin 0)) (channelData b ! 0)
      else
        let summed = fold (\<lambda>channel m. addChannel (frameCount b) (channelData b ! channel) m)
                       [0..<numberOfChannels b] (replicate (frameCount b) (Fin 0))
        in divideAll (frameCount b) (numberOfChannels b) summed)"

subsection \<open>\<^verbatim>\<open>resampleMonoAudio\<close>\<close>

text \<open>
  The quantities of one loop iteration, as the source computes them from the iteration
  index \<open>i\<close> and \<open>ratio\<close>, each operation in double precision.
\<close>

definition sourceIndex :: "jsnum \<Rightarrow> nat \<Rightarrow> jsnum" where
  "sourceIndex ratio i = ddiv (Fin (of_nat i)) ratio"

definition lowerIndex :: "jsnum \<Rightarrow> nat \<Rightarrow> jsnum" where
  "lowerIndex ratio i = jfloor (sourceIndex ratio i)"

definition upperIndex :: "jsnum list \<Rightarrow> jsnum \<Rightarrow> nat \<Rightarrow> jsnum" where
  "upperIndex input ratio i =
     jmin (dadd (lowerIndex ratio i) (Fin 1)) (dsub (Fin (of_nat (length input))) (Fin 1))"

definition weight :: "jsnum \<Rightarrow> nat \<Rightarrow> jsnum" where
  "weight ratio i = dsub (sourceIndex ratio i) (lowerIndex ratio i)"

definition resampleAt :: "jsnum list \<Rightarrow> jsnum \<Rightarrow> nat \<Rightarrow> jsnum" where
  "resampleAt input ratio i =
     dadd (dmul (typed_get input (lowerIndex ratio i)) (dsub (Fin 1) (weight ratio i)))
          (dmul (typed_get input (upperIndex input ratio i)) (weight ratio i))"

definition outputLength :: "jsnum list \<Rightarrow> jsnum \<Rightarrow> jsnum" where
  "outputLength input ratio = jmax (Fin 1) (jround (dmul (Fin (of_nat (length input))) ratio))"

text \<open>
  The rates are finite numbers. The loop runs over the indices of the new buffer (for
  the length \<^verbatim>\<open>NaN\<close> the buffer is empty and \<^verbatim>\<open>i < outputLength\<close> is false at
  once), and each store rounds the sample to single precision.
\<close>

definition resampleMonoAudio :: "nat \<Rightarrow> jsnum list \<Rightarrow> rat \<Rightarrow> rat \<Rightarrow> js_error + jsnum list" where
  "resampleMonoAudio maxLen input inputSampleRate outputSampleRate =
     (if inputSampleRate = outputSampleRate then Inr input
      else
        let ratio = ddiv (Fin outputSampleRate) (Fin inputSampleRate)
        in case newFloat32Array maxLen (outputLength input ratio) of
             Inl e \<Rightarrow> Inl e
           | Inr fresh \<Rightarrow>
               Inr (fold (\<lambda>i out. out[i := toFloat32 (resampleAt input ratio i)])
                      [0..<length fresh] fresh))"

section \<open>Session controller\<close>

subsection \<open>Types of the message protocol\<close>

datatype WhisperLanguage =
  English | Turkish | Spanish | French | German | Italian
  | Portuguese | Russian | Arabic | Hindi | Japanese | Korean

datatype LanguageChoice = Auto | Language WhisperLanguage

datatype ProgressPhase = Phase_download | Phase_transcribing

datatype WorkerStatus = Worker_loading | Worker_ready | Worker_transcribing | Worker_error

datatype TranscriptionStatus =
  Status_idle | Status_loading | Status_decoding | Status_transcribing
  | Status_ready | Status_error

record TranscriptSegment =
  seg_text :: string
  seg_start :: rat
  seg_end :: rat

datatype WorkerRequest =
  Load
  | Transcribe int "jsnum list" "LanguageChoice option"

text \<open>
  The fields of a \<^verbatim>\<open>status\<close> and of a \<^verbatim>\<open>progress\<close> message. An optional
  field that is absent is \<open>None\<close>; \<^verbatim>\<open>typeof x === "number"\<close> is \<open>x \<noteq> None\<close>.
\<close>

record StatusFields =
  st_status :: WorkerStatus
  st_requestId :: "int option"
  st_detail :: "string option"
  st_device :: "string option"

record ProgressFields =
  pr_phase :: ProgressPhase
  pr_progress :: rat
  pr_requestId :: "int option"
  pr_processedChunks :: "rat option"
  pr_totalChunks :: "rat option"
  pr_currentSlice :: "rat option"
  pr_totalSlices :: "rat option"
  pr_loaded :: "rat option"
  pr_total :: "rat option"
  pr_file :: "string option"

datatype WorkerResponse =
  StatusMsg StatusFields
  | ProgressMsg ProgressFields
  | PartialMsg string int
  | SegmentsMsg int string "TranscriptSegment list"
  | ResultMsg string int
  | ErrorMsg string "int option"

subsection \<open>State of the component\<close>

text \<open>
  A background execution unit is known to the page by what the page did to it: the
  requests posted to it and whether it was terminated. \<open>workers\<close> holds every unit
  created so far, in creation order; \<open>workerRef\<close> is the index of the current one.
  \<open>deferred\<close> holds the callbacks the page has scheduled (\<^verbatim>\<open>queueMicrotask\<close>,
  \<^verbatim>\<open>setTimeout\<close>) and not yet run.

  The state has the two refs of the session, the unit, and every \<^verbatim>\<open>useState\<close>
  value that the functions below read or write. The values of the page that none of them
  touches (menus, font, copy feedback, view mode, device detection) are left out.
  \<open>outputText\<close> is the source's \<^verbatim>\<open>output\<close>.
\<close>

record WorkerUnit =
  posted :: "WorkerRequest list"
  terminated :: bool

datatype Deferred =
  Report_workers_unsupported
  | Clear_cancelling nat

record AppState =
  activeRequestId :: int
  transcribeStartedAt :: "int option"
  workerRef :: "nat option"
  workers :: "WorkerUnit list"
  deferred :: "Deferred list"
  status :: TranscriptionStatus
  progress :: rat
  progressPhase :: "ProgressPhase option"
  processedChunks :: "rat option"
  totalChunks :: "rat option"
  etaSeconds :: "jsnum option"
  outputText :: string
  segments :: "TranscriptSegment list"
  error :: "string option"
  activeFileName :: "string option"
  selectedLanguage :: "LanguageChoice option"
  isCancelling :: bool
  downloadedBytes :: "rat option"
  totalBytes :: "rat option"
  loadingDetail :: "string option"
  activeDevice :: "string option"
  currentSlice :: "rat option"
  totalSlices :: "rat option"

text \<open>The state at mount: the initial values of the refs and of the \<^verbatim>\<open>useState\<close> hooks.\<close>

definition initialState :: AppState where
  "initialState =
     \<lparr>activeRequestId = 0, transcribeStartedAt = None, workerRef = None, workers = [],
      deferred = [], status = Status_idle, progress = 0, progressPhase = None,
      processedChunks = None, totalChunks = None, etaSeconds = None, outputText = [],
      segments = [], error = None, activeFileName = None, selectedLanguage = None,
      isCancelling = False, downloadedBytes = None, totalBytes = None,
      loadingDetail = None, activeDevice = None, currentSlice = None, totalSlices = None\<rparr>"

subsection \<open>\<^verbatim>\<open>clearProgressState\<close>\<close>

definition clearProgressState :: "AppState \<Rightarrow> AppState" where
  "clearProgressState s =
     s\<lparr>progress := 0, progressPhase := None, processedChunks := None, totalChunks := None,
       etaSeconds := None, downloadedBytes := None, totalBytes := None,
       loadingDetail := None, currentSlice := None, totalSlices := None,
       transcribeStartedAt := None\<rparr>"

subsection \<open>\<^verbatim>\<open>handleWorkerMessage\<close>\<close>

text \<open>
  \<^verbatim>\<open>typeof message.requestId === "number" && message.requestId !== activeRequestIdRef.current\<close>
\<close>

definition staleId :: "int option \<Rightarrow> AppState \<Rightarrow> bool" where
  "staleId rid s = (case rid of None \<Rightarrow> False | Some r \<Rightarrow> r \<noteq> activeRequestId s)"

text \<open>\<^verbatim>\<open>if (message.device) setActiveDevice(message.device)\<close>: an empty string is falsy.\<close>

definition setDeviceIfGiven :: "string option \<Rightarrow> AppState \<Rightarrow> AppState" where
  "setDeviceIfGiven dev s =
     (case dev of None \<Rightarrow> s | Some d \<Rightarrow> if d = [] then s else s\<lparr>activeDevice := Some d\<rparr>)"

definition truthy :: "string option \<Rightarrow> bool" where
  "truthy x = (case x of None \<Rightarrow> False | Some d \<Rightarrow> d \<noteq> [])"

text \<open>The reset shared by the \<^verbatim>\<open>ready\<close>, \<^verbatim>\<open>segments\<close> and \<^verbatim>\<open>result\<close> branches.\<close>

definition clearTranscribeProgress :: "AppState \<Rightarrow> AppState" where
  "clearTranscribeProgress s =
     s\<lparr>progressPhase := None, processedChunks := None, totalChunks := None,
       etaSeconds := None, transcribeStartedAt := None\<rparr>"

definition handleStatus :: "StatusFields \<Rightarrow> AppState \<Rightarrow> AppState" where
  "handleStatus m s =
     (if staleId (st_requestId m) s then s
      else
        let s1 =
          (case st_status m of
             Worker_loading \<Rightarrow>
               setDeviceIfGiven (st_device m)
                 (let s0 = s\<lparr>status := Status_loading\<rparr>
                  in if truthy (st_detail m) then s0\<lparr>loadingDetail := st_detail m\<rparr> else s0)
           | Worker_transcribing \<Rightarrow>
               setDeviceIfGiven (st_device m)
                 (s\<lparr>status := Status_transcribing, loadingDetail := None\<rparr>)
           | Worker_ready \<Rightarrow>
               clearTranscribeProgress
                 (setDeviceIfGiven (st_device m) (s\<lparr>status := Status_ready, loadingDetail := None\<rparr>))
           | Worker_error \<Rightarrow>
               clearProgressState (s\<lparr>status := Status_error, loadingDetail := None\<rparr>))
        in if truthy (st_detail m) \<and> st_status m = Worker_error
           then s1\<lparr>error := st_detail m\<rparr> else s1)"

text \<open>
  The estimate of the transcribe branch, in double precision. \<open>later\<close> is the reading
  of \<^verbatim>\<open>Date.now()\<close> taken for the elapsed time and \<open>startedAt\<close> the value of the ref
  after the branch has initialised it. The counters of a message are finite numbers.
\<close>

definition estimateRemaining :: "int \<Rightarrow> int \<Rightarrow> rat option \<Rightarrow> rat option \<Rightarrow> jsnum option" where
  "estimateRemaining later startedAt processed totalCount =
     (case (processed, totalCount) of
        (Some p, Some t) \<Rightarrow>
          if 0 < p \<and> p \<le> t then
            let elapsedSeconds = ddiv (dsub (Fin (of_int later)) (Fin (of_int startedAt))) (Fin 1000);
                averageChunkSeconds = ddiv elapsedSeconds (Fin p);
                remainingChunks = jmax (dsub (Fin t) (Fin p)) (Fin 0)
            in Some (jceil (dmul averageChunkSeconds remainingChunks))
          else None
      | _ \<Rightarrow> None)"

text \<open>
  The transcribe branch reads the clock twice: \<open>now\<close> when it records the start time
  (only if none is recorded) and \<open>later\<close> when it computes the elapsed time.
\<close>

definition handleProgress :: "int \<Rightarrow> int \<Rightarrow> ProgressFields \<Rightarrow> AppState \<Rightarrow> AppState" where
  "handleProgress now later m s =
     (if pr_phase m = Phase_transcribing \<and> staleId (pr_requestId m) s then s
      else
        let s1 = s\<lparr>progressPhase := Some (pr_phase m), progress := clampProgress (pr_progress m)\<rparr>
        in if pr_phase m = Phase_download then
             let s2 = s1\<lparr>status := Status_loading, processedChunks := None, totalChunks := None,
                         etaSeconds := None, transcribeStartedAt := None\<rparr>;
                 s3 = (case pr_loaded m of None \<Rightarrow> s2 | Some l \<Rightarrow> s2\<lparr>downloadedBytes := Some l\<rparr>)
             in (case pr_total m of
                   None \<Rightarrow> s3
                 | Some t \<Rightarrow> if 0 < t then s3\<lparr>totalBytes := Some t\<rparr> else s3)
           else
             let s2 = s1\<lparr>status := Status_transcribing,
                         processedChunks := pr_processedChunks m,
                         totalChunks := pr_totalChunks m\<rparr>;
                 s3 = (case pr_currentSlice m of None \<Rightarrow> s2 | Some c \<Rightarrow> s2\<lparr>currentSlice := Some c\<rparr>);
                 s4 = (case pr_totalSlices m of None \<Rightarrow> s3 | Some c \<Rightarrow> s3\<lparr>totalSlices := Some c\<rparr>);
                 startedAt = (case transcribeStartedAt s4 of None \<Rightarrow> now | Some t \<Rightarrow> t);
                 s5 = s4\<lparr>transcribeStartedAt := Some startedAt\<rparr>
             in s5\<lparr>etaSeconds :=
                     estimateRemaining later startedAt (pr_processedChunks m) (pr_totalChunks m)\<rparr>)"

text \<open>\<open>now\<close> and \<open>later\<close> are the two readings of \<^verbatim>\<open>Date.now()\<close> of the progress branch.\<close>

fun handleWorkerMessage :: "int \<Rightarrow> int \<Rightarrow> WorkerResponse \<Rightarrow> AppState \<Rightarrow> AppState" where
  "handleWorkerMessage now later (StatusMsg m) s = handleStatus m s"
| "handleWorkerMessage now later (ProgressMsg m) s = handleProgress now later m s"
| "handleWorkerMessage now later (PartialMsg txt rid) s =
     (if rid \<noteq> activeRequestId s then s
      else s\<lparr>status := Status_transcribing, outputText := txt\<rparr>)"
| "handleWorkerMessage now later (SegmentsMsg rid txt segs) s =
     (if rid \<noteq> activeRequestId s then s
      else clearTranscribeProgress (s\<lparr>segments := segs, outputText := txt, status := Status_ready\<rparr>))"
| "handleWorkerMessage now later (ResultMsg txt rid) s =
     (if rid \<noteq> activeRequestId s then s
      else clearTranscribeProgress (s\<lparr>outputText := txt, status := Status_ready\<rparr>))"
| "handleWorkerMessage now later (ErrorMsg err rid) s =
     (if staleId rid s then s
      else clearProgressState (s\<lparr>status := Status_error, error := Some err\<rparr>))"

subsection \<open>\<^verbatim>\<open>initializeWorker\<close> and \<^verbatim>\<open>cancelTranscription\<close>\<close>

text \<open>
  \<open>workerSupported\<close> is \<^verbatim>\<open>typeof Worker !== "undefined"\<close>, a fact of the platform.
  Without it, the function schedules a microtask that reports the error and creates nothing.
\<close>

definition initializeWorker :: "bool \<Rightarrow> AppState \<Rightarrow> AppState" where
  "initializeWorker workerSupported s =
     (if \<not> workerSupported then s\<lparr>deferred := deferred s @ [Report_workers_unsupported]\<rparr>
      else s\<lparr>workers := workers s @ [\<lparr>posted = [Load], terminated = False\<rparr>],
             workerRef := Some (length (workers s))\<rparr>)"

text \<open>\<^verbatim>\<open>worker.onerror\<close>; \<open>msg\<close> is \<^verbatim>\<open>event.message\<close>.\<close>

definition workerOnError :: "string \<Rightarrow> AppState \<Rightarrow> AppState" where
  "workerOnError msg s =
     clearProgressState
       (s\<lparr>status := Status_error,
          error := Some (if msg = [] then ''Worker encountered an unexpected error.'' else msg)\<rparr>)"

text \<open>\<^verbatim>\<open>workerRef.current.terminate(); workerRef.current = null\<close>\<close>

definition terminateCurrent :: "AppState \<Rightarrow> AppState" where
  "terminateCurrent s =
     (case workerRef s of
        None \<Rightarrow> s
      | Some w \<Rightarrow>
          s\<lparr>workers := (workers s)[w := (workers s ! w)\<lparr>terminated := True\<rparr>],
            workerRef := None\<rparr>)"

text \<open>
  \<^verbatim>\<open>activeRequestIdRef.current += 1\<close>. The counter is an integer-valued double: the
  sum is rounded, so from \<open>2^53\<close> on the addition no longer changes it. (A sum beyond the
  largest double would be \<^verbatim>\<open>Infinity\<close>; the counter, which starts at \<open>0\<close>, does not
  get there, and the model leaves it unchanged.)
\<close>

definition nextRequestId :: "int \<Rightarrow> int" where
  "nextRequestId c = (case dadd (Fin (of_int c)) (Fin 1) of Fin r \<Rightarrow> \<lfloor>r\<rfloor> | _ \<Rightarrow> c)"

definition cancelTranscription :: "bool \<Rightarrow> AppState \<Rightarrow> AppState" where
  "cancelTranscription workerSupported s =
     (let s1 = s\<lparr>activeRequestId := nextRequestId (activeRequestId s), isCancelling := True,
                 status := Status_idle, error := None\<rparr>;
          s2 = clearProgressState s1;
          s3 = terminateCurrent s2;
          s4 = initializeWorker workerSupported s3
      in s4\<lparr>deferred := deferred s4 @ [Clear_cancelling 300]\<rparr>)"

text \<open>Running a scheduled callback.\<close>

fun runDeferred :: "Deferred \<Rightarrow> AppState \<Rightarrow> AppState" where
  "runDeferred Report_workers_unsupported s =
     s\<lparr>status := Status_error, error := Some ''Web Workers are not supported in this browser.''\<rparr>"
| "runDeferred (Clear_cancelling ms) s = s\<lparr>isCancelling := False\<rparr>"

section \<open>Structured export\<close>

record TranscriptExportJson =
  version :: nat
  createdAt :: string
  fileName :: "string option"
  model :: string
  language :: "LanguageChoice option"
  export_text :: string
  export_segments :: "TranscriptSegment list"

text \<open>
  \<open>toISOString\<close> stands for \<^verbatim>\<open>Date.prototype.toISOString\<close> of the platform, from
  the clock reading in milliseconds; \<open>now\<close> is the clock at the call. The source
  function calls no state setter: the state comes back as it went in. \<open>export_text\<close>
  and \<open>export_segments\<close> are the record's fields \<^verbatim>\<open>text\<close> and
  \<^verbatim>\<open>segments\<close>.
\<close>

definition buildJsonExportPayload ::
  "(int \<Rightarrow> string) \<Rightarrow> int \<Rightarrow> AppState \<Rightarrow> TranscriptExportJson \<times> AppState" where
  "buildJsonExportPayload toISOString now s =
     (\<lparr>version = 1,
       createdAt = toISOString now,
       fileName = activeFileName s,
       model = ''Xenova/whisper-small'',
       language = selectedLanguage s,
       export_text = outputText s,
       export_segments = segments s\<rparr>, s)"

section \<open>Vocabulary of the properties\<close>

text \<open>The request identifier a message carries, if any.\<close>

definition requestIdOf :: "WorkerResponse \<Rightarrow> int option" where
  "requestIdOf msg =
     (case msg of
        StatusMsg m \<Rightarrow> st_requestId m
      | ProgressMsg m \<Rightarrow> pr_requestId m
      | PartialMsg body rid \<Rightarrow> Some rid
      | SegmentsMsg rid body segs \<Rightarrow> Some rid
      | ResultMsg body rid \<Rightarrow> Some rid
      | ErrorMsg err rid \<Rightarrow> rid)"

text \<open>The message carries a request identifier that is not the current counter.\<close>

definition carriesStaleId :: "WorkerResponse \<Rightarrow> AppState \<Rightarrow> bool" where
  "carriesStaleId msg s = staleId (requestIdOf msg) s"

definition isDownloadProgress :: "WorkerResponse \<Rightarrow> bool" where
  "isDownloadProgress msg =
     (case msg of ProgressMsg m \<Rightarrow> pr_phase m = Phase_download | _ \<Rightarrow> False)"

text \<open>The in-flight progress state is the one of a session that has not started.\<close>

definition progressStateCleared :: "AppState \<Rightarrow> bool" where
  "progressStateCleared s \<longleftrightarrow>
     progress s = 0 \<and> progressPhase s = None \<and> processedChunks s = None \<and>
     totalChunks s = None \<and> downloadedBytes s = None \<and> totalBytes s = None \<and>
     currentSlice s = None \<and> totalSlices s = None \<and> etaSeconds s = None \<and>
     transcribeStartedAt s = None"

text \<open>
  An arriving message with the two clock readings of its handling, and the handling of a
  sequence of them in arrival order.
\<close>

record Arrival =
  readAt :: int
  readAgainAt :: int
  message :: WorkerResponse

definition arrival :: "int \<Rightarrow> WorkerResponse \<Rightarrow> Arrival" where
  "arrival t msg = \<lparr>readAt = t, readAgainAt = t, message = msg\<rparr>"

fun handleAll :: "Arrival list \<Rightarrow> AppState \<Rightarrow> AppState" where
  "handleAll [] s = s"
| "handleAll (e # es) s =
     handleAll es (handleWorkerMessage (readAt e) (readAgainAt e) (message e) s)"

subsection \<open>Concrete messages and states\<close>

definition downloadProgress ::
  "rat \<Rightarrow> int option \<Rightarrow> rat option \<Rightarrow> rat option \<Rightarrow> WorkerResponse" where
  "downloadProgress pct rid l t =
     ProgressMsg \<lparr>pr_phase = Phase_download, pr_progress = pct, pr_requestId = rid,
       pr_processedChunks = None, pr_totalChunks = None, pr_currentSlice = None,
       pr_totalSlices = None, pr_loaded = l, pr_total = t, pr_file = None\<rparr>"

definition transcribeProgress ::
  "rat \<Rightarrow> int option \<Rightarrow> rat option \<Rightarrow> rat option \<Rightarrow> WorkerResponse" where
  "transcribeProgress pct rid p t =
     ProgressMsg \<lparr>pr_phase = Phase_transcribing, pr_progress = pct, pr_requestId = rid,
       pr_processedChunks = p, pr_totalChunks = t, pr_currentSlice = None,
       pr_totalSlices = None, pr_loaded = None, pr_total = None, pr_file = None\<rparr>"

text \<open>The page after mount, with its first unit, once request 2 has been issued.\<close>

definition atRequest2 :: AppState where
  "atRequest2 = (initializeWorker True initialState)\<lparr>activeRequestId := 2\<rparr>"

text \<open>
  A session in flight: for request 2 a first transcript with one segment has arrived,
  and transcription goes on; one of four chunks is done six seconds after the first
  progress message.
\<close>

definition inFlight :: AppState where
  "inFlight =
     handleAll
       [arrival 900 (SegmentsMsg 2 ''hello'' [\<lparr>seg_text = ''hello'', seg_start = 0, seg_end = 2\<rparr>]),
        arrival 1000 (transcribeProgress 0 (Some 2) (Some 0) (Some 4)),
        arrival 7000 (transcribeProgress 25 (Some 2) (Some 1) (Some 4))]
       atRequest2"

text \<open>
  A download-phase progress message of model loading (5 of 10 bytes), followed by the
  first transcribe-phase progress message of request 2.
\<close>

definition afterDownload :: AppState where
  "afterDownload =
     handleWorkerMessage 1000 1000 (downloadProgress 50 None (Some 5) (Some 10)) atRequest2"

definition afterTranscribe :: AppState where
  "afterTranscribe =
     handleWorkerMessage 2000 2000 (transcribeProgress 0 (Some 2) (Some 0) (Some 4)) afterDownload"

text \<open>A transcribe-phase progress message that the handler does not drop.\<close>

definition acceptedTranscribe :: "WorkerResponse \<Rightarrow> AppState \<Rightarrow> bool" where
  "acceptedTranscribe msg s =
     (case msg of
        ProgressMsg m \<Rightarrow> pr_phase m = Phase_transcribing \<and> \<not> staleId (pr_requestId m) s
      | _ \<Rightarrow> False)"

text \<open>The counters of a progress message; \<open>None\<close> for another kind of message.\<close>

definition processedOf :: "WorkerResponse \<Rightarrow> rat option" where
  "processedOf msg = (case msg of ProgressMsg m \<Rightarrow> pr_processedChunks m | _ \<Rightarrow> None)"

definition totalOf :: "WorkerResponse \<Rightarrow> rat option" where
  "totalOf msg = (case msg of ProgressMsg m \<Rightarrow> pr_totalChunks m | _ \<Rightarrow> None)"

text \<open>
  Request 2 reports no chunk at clock 1000 and three of eight chunks at clock 5200, that
  is 4200 ms later.
\<close>

definition threeOfEight :: "Arrival list" where
  "threeOfEight =
     [arrival 1000 (transcribeProgress 0 (Some 2) (Some 0) (Some 8)),
      arrival 5200 (transcribeProgress (75 / 2) (Some 2) (Some 3) (Some 8))]"

subsection \<open>Vocabulary of the audio properties\<close>

text \<open>Linear interpolation between two samples with weight \<open>w\<close>, in double precision.\<close>

definition lerp :: "jsnum \<Rightarrow> jsnum \<Rightarrow> jsnum \<Rightarrow> jsnum" where
  "lerp a b w = dadd (dmul a (dsub (Fin 1) w)) (dmul b w)"

text \<open>
  The mean as the downmix computes it: the running sum from \<open>0\<close> in list order, rounded
  to single precision after every addition, divided by the number of samples and rounded
  to single precision.
\<close>

definition mean32 :: "jsnum list \<Rightarrow> jsnum" where
  "mean32 xs =
     toFloat32 (ddiv (foldl (\<lambda>a x. toFloat32 (dadd a x)) (Fin 0) xs) (Fin (of_nat (length xs))))"

text \<open>A rational that is a value of both formats: computing and storing it loses nothing.\<close>

definition exact32 :: "rat \<Rightarrow> bool" where
  "exact32 r \<longleftrightarrow> rd64 r = Fin r \<and> rd32 r = Fin r"

text \<open>The samples at index \<open>i\<close> of all channels, in channel order.\<close>

definition frame :: "AudioBuffer \<Rightarrow> nat \<Rightarrow> jsnum list" where
  "frame b i = map (\<lambda>c. c ! i) (channelData b)"

text \<open>The two-channel buffer of the specification: channel A all \<open>1.0\<close>, channel B all \<open>-1.0\<close>.\<close>

definition opposed :: "nat \<Rightarrow> AudioBuffer" where
  "opposed n = \<lparr>numberOfChannels = 2, frameCount = n,
                  channelData = [replicate n (Fin 1), replicate n (Fin (- 1))]\<rparr>"

text \<open>Two channels of one loud sample each, \<open>3 * 2^126\<close>, a single-precision value.\<close>

definition loud :: AudioBuffer where
  "loud = \<lparr>numberOfChannels = 2, frameCount = 1,
            channelData = [[Fin (3 * 2 ^ 126)], [Fin (3 * 2 ^ 126)]]\<rparr>"

text \<open>A platform that allocates typed arrays of up to \<open>2^32\<close> elements.\<close>

definition maxLen32 :: nat where
  "maxLen32 = 2 ^ 32"

section \<open>Properties of the rounding\<close>

lemma rhe_of_int [simp]: "rhe (of_int k) = k"
  by (simp add: rhe_def)

lemma rhe_error: "\<bar>of_int (rhe m) - m\<bar> \<le> 1 / 2"
proof -
  have "of_int \<lfloor>m\<rfloor> \<le> m" "m < of_int \<lfloor>m\<rfloor> + 1" by linarith+
  then show ?thesis by (auto simp: rhe_def Let_def)
qed

lemma rhe_near: "\<bar>m - of_int k\<bar> < 1 / 2 \<Longrightarrow> rhe m = k"
proof -
  assume a: "\<bar>m - of_int k\<bar> < 1 / 2"
  have e: "\<bar>of_int (rhe m) - m\<bar> \<le> 1 / 2" by (rule rhe_error)
  from a e have "\<bar>(of_int (rhe m) :: rat) - of_int k\<bar> < 1" by linarith
  then have "\<bar>(of_int (rhe m - k) :: rat)\<bar> < 1" by simp
  then have "\<bar>rhe m - k\<bar> < 1" by (metis of_int_abs of_int_less_1_iff)
  then show ?thesis by simp
qed

lemma rhe_nonneg: "0 \<le> m \<Longrightarrow> 0 \<le> rhe m"
  by (auto simp: rhe_def Let_def)

lemma rhe_mono_zero: "m \<le> 0 \<Longrightarrow> rhe m \<le> 0"
proof -
  assume "m \<le> 0"
  then have "\<lfloor>m\<rfloor> \<le> 0" by simp
  moreover have "\<lfloor>m\<rfloor> = 0 \<Longrightarrow> m = 0" using \<open>m \<le> 0\<close> by linarith
  ultimately show ?thesis
    by (cases "\<lfloor>m\<rfloor> = 0") (auto simp: rhe_def Let_def)
qed


lemma pow2_nat: "0 \<le> k \<Longrightarrow> (2::rat) ^ nat k = 2 powi k"
  by (metis power_int_of_nat int_nat_eq)

lemma ilog2_bounds:
  assumes "0 < x"
  shows "2 powi (ilog2 x) \<le> x \<and> x < 2 powi (ilog2 x + 1)"
proof -
  obtain a b where q: "quotient_of x = (a, b)" by (cases "quotient_of x")
  then have b: "0 < b" and x: "x = of_int a / of_int b"
    by (simp_all add: quotient_of_denom_pos quotient_of_div)
  with assms have a: "0 < a" by (simp add: zero_less_divide_iff)
  let ?d = "bitlen a - bitlen b"
  from bitlen_bounds [OF a] have a1: "2 ^ nat (bitlen a - 1) \<le> a" and a2: "a < 2 ^ nat (bitlen a)"
    by simp_all
  from bitlen_bounds [OF b] have b1: "2 ^ nat (bitlen b - 1) \<le> b" and b2: "b < 2 ^ nat (bitlen b)"
    by simp_all
  have la: "1 \<le> bitlen a" using a bitlen_eq_zero_iff [of a] bitlen_nonneg [of a] by linarith
  have lb: "1 \<le> bitlen b" using b bitlen_eq_zero_iff [of b] bitlen_nonneg [of b] by linarith
  have ra1: "(2::rat) powi (bitlen a - 1) \<le> of_int a"
  proof -
    have "(of_int (2 ^ nat (bitlen a - 1)) :: rat) \<le> of_int a" using a1 by (simp only: of_int_le_iff)
    then show ?thesis using la by (simp add: pow2_nat)
  qed
  have ra2: "(of_int a :: rat) < 2 powi (bitlen a)"
  proof -
    have "(of_int a :: rat) < of_int (2 ^ nat (bitlen a))" using a2 by (simp only: of_int_less_iff)
    then show ?thesis using la by (simp add: pow2_nat)
  qed
  have rb1: "(2::rat) powi (bitlen b - 1) \<le> of_int b"
  proof -
    have "(of_int (2 ^ nat (bitlen b - 1)) :: rat) \<le> of_int b" using b1 by (simp only: of_int_le_iff)
    then show ?thesis using lb by (simp add: pow2_nat)
  qed
  have rb2: "(of_int b :: rat) < 2 powi (bitlen b)"
  proof -
    have "(of_int b :: rat) < of_int (2 ^ nat (bitlen b))" using b2 by (simp only: of_int_less_iff)
    then show ?thesis using lb by (simp add: pow2_nat)
  qed
  have bpos: "(0::rat) < of_int b" using b by simp
  have lo: "2 powi (?d - 1) \<le> x"
  proof -
    have "(2::rat) powi (?d - 1) * of_int b \<le> 2 powi (?d - 1) * 2 powi (bitlen b)"
      using rb2 by (intro mult_left_mono) simp_all
    also have "\<dots> = 2 powi (bitlen a - 1)"
      by (simp add: power_int_add [symmetric])
    also have "\<dots> \<le> of_int a" by (rule ra1)
    finally show ?thesis using bpos by (simp add: x pos_le_divide_eq)
  qed
  have hi: "x < 2 powi (?d + 1)"
  proof -
    have "(of_int a :: rat) < 2 powi (bitlen a)" by (rule ra2)
    also have "\<dots> = 2 powi (?d + 1) * 2 powi (bitlen b - 1)"
      by (simp add: power_int_add [symmetric])
    also have "\<dots> \<le> 2 powi (?d + 1) * of_int b"
      using rb1 by (intro mult_left_mono) simp_all
    finally show ?thesis using bpos by (simp add: x pos_divide_less_eq)
  qed
  show ?thesis
  proof (cases "x < 2 powi ?d")
    case True
    then have "ilog2 x = ?d - 1" by (simp add: ilog2_def q)
    with lo True show ?thesis by simp
  next
    case False
    then have "ilog2 x = ?d" by (simp add: ilog2_def q)
    with hi False show ?thesis by simp
  qed
qed

lemma pow2_mono: "a \<le> b \<Longrightarrow> (2::rat) powi a \<le> 2 powi b"
  by (rule power_int_increasing) simp_all

lemma pow2_less_mono: "(2::rat) powi a < 2 powi b \<Longrightarrow> a < b"
  using pow2_mono [of b a] by (cases "a < b") simp_all

lemma ilog2_unique:
  assumes "2 powi e \<le> x" and "x < 2 powi (e + 1)"
  shows "ilog2 x = e"
proof -
  have "(0::rat) < 2 powi e" by simp
  with assms(1) have x: "0 < x" by linarith
  note b = ilog2_bounds [OF x]
  from b assms have "(2::rat) powi (ilog2 x) < 2 powi (e + 1)" by linarith
  then have 1: "ilog2 x < e + 1" by (rule pow2_less_mono)
  from b assms have "(2::rat) powi e < 2 powi (ilog2 x + 1)" by linarith
  then have 2: "e < ilog2 x + 1" by (rule pow2_less_mono)
  from 1 2 show ?thesis by simp
qed

lemma pow2_le_mono: "(2::rat) powi a \<le> 2 powi b \<Longrightarrow> a \<le> b"
proof (rule ccontr)
  assume le: "(2::rat) powi a \<le> 2 powi b" and "\<not> a \<le> b"
  then have "b + 1 \<le> a" by simp
  then have "(2::rat) powi (b + 1) \<le> 2 powi a" by (rule pow2_mono)
  moreover have "(2::rat) powi (b + 1) = 2 * 2 powi b" by (simp add: power_int_add)
  moreover have "(0::rat) < 2 powi b" by simp
  ultimately show False using le by linarith
qed

lemma rhe_0 [simp]: "rhe 0 = 0"
  by (simp add: rhe_def)

lemma round_unfold:
  fixes x :: rat and p emin emax :: int
  assumes "x \<noteq> 0"
  defines "q \<equiv> (2::rat) powi (max (ilog2 \<bar>x\<bar>) emin - p + 1)"
  defines "r \<equiv> of_int (rhe (x / q)) * q"
  shows "roundBinary p emin emax x
         = (if 2 powi (emax + 1) \<le> \<bar>r\<bar> then (if 0 < x then PInf else NInf) else Fin r)"
  using assms(1) unfolding q_def r_def by (simp add: roundBinary_def Let_def)

lemma round_quantum:
  fixes x :: rat and p emin emax :: int
  assumes "roundBinary p emin emax x = Fin r"
  defines "q \<equiv> (2::rat) powi (max (ilog2 \<bar>x\<bar>) emin - p + 1)"
  shows "\<bar>r - x\<bar> \<le> q / 2" and "r = of_int (rhe (x / q)) * q"
proof -
  have qpos: "0 < q" by (simp add: q_def)
  show r: "r = of_int (rhe (x / q)) * q"
  proof (cases "x = 0")
    case True
    with assms(1) show ?thesis by (simp add: roundBinary_def)
  next
    case False
    from assms(1) round_unfold [OF False, of p emin emax] show ?thesis
      by (auto simp: q_def split: if_splits)
  qed
  have "\<bar>of_int (rhe (x / q)) - x / q\<bar> \<le> 1 / 2" by (rule rhe_error)
  then have "\<bar>of_int (rhe (x / q)) - x / q\<bar> * q \<le> 1 / 2 * q"
    using qpos by (intro mult_right_mono) simp_all
  moreover have "\<bar>of_int (rhe (x / q)) - x / q\<bar> * q = \<bar>of_int (rhe (x / q)) * q - x\<bar>"
  proof -
    have "\<bar>of_int (rhe (x / q)) - x / q\<bar> * q = \<bar>(of_int (rhe (x / q)) - x / q) * q\<bar>"
      using qpos by (simp add: abs_mult)
    also have "(of_int (rhe (x / q)) - x / q) * q = of_int (rhe (x / q)) * q - x"
      using qpos by (simp add: algebra_simps)
    finally show ?thesis .
  qed
  ultimately show "\<bar>r - x\<bar> \<le> q / 2" by (simp add: r)
qed

lemma round_error:
  assumes "roundBinary p emin emax x = Fin r"
  shows "\<bar>r - x\<bar> \<le> \<bar>x\<bar> * 2 powi (- p) + 2 powi (emin - p)"
proof (cases "x = 0")
  case True
  with assms have "r = 0" by (simp add: roundBinary_def)
  with True show ?thesis by simp
next
  case False
  then have ax: "0 < \<bar>x\<bar>" by simp
  let ?il = "ilog2 \<bar>x\<bar>"
  let ?q = "(2::rat) powi (max ?il emin - p + 1)"
  from round_quantum(1) [OF assms] have e: "\<bar>r - x\<bar> \<le> ?q / 2" .
  have half: "?q / 2 = 2 powi (max ?il emin - p)"
    by (simp add: power_int_add)
  have "2 powi (max ?il emin - p) \<le> \<bar>x\<bar> * 2 powi (- p) + 2 powi (emin - p)"
  proof (cases "emin \<le> ?il")
    case True
    then have "(2::rat) powi (max ?il emin - p) = 2 powi ?il * 2 powi (- p)"
      by (simp add: max_def power_int_add [symmetric])
    also have "\<dots> \<le> \<bar>x\<bar> * 2 powi (- p)"
      using ilog2_bounds [OF ax] by (intro mult_right_mono) simp_all
    finally have "(2::rat) powi (max ?il emin - p) \<le> \<bar>x\<bar> * 2 powi (- p)" .
    moreover have "(0::rat) < 2 powi (emin - p)" by simp
    ultimately show ?thesis by linarith
  next
    case False
    then have "(2::rat) powi (max ?il emin - p) = 2 powi (emin - p)" by (simp add: max_def)
    moreover have "0 \<le> \<bar>x\<bar> * 2 powi (- p)" by simp
    ultimately show ?thesis by linarith
  qed
  with e half show ?thesis by linarith
qed

lemma round_nonneg:
  assumes "0 \<le> x" and "roundBinary p emin emax x = Fin r"
  shows "0 \<le> r"
proof -
  let ?q = "(2::rat) powi (max (ilog2 \<bar>x\<bar>) emin - p + 1)"
  have "0 \<le> x / ?q" using assms(1) by simp
  then have "0 \<le> rhe (x / ?q)" by (rule rhe_nonneg)
  then show ?thesis unfolding round_quantum(2) [OF assms(2)] by simp
qed

lemma round_pos_not_NInf:
  assumes "0 \<le> x"
  shows "roundBinary p emin emax x \<noteq> NInf" and "roundBinary p emin emax x \<noteq> NaN"
proof -
  show "roundBinary p emin emax x \<noteq> NaN"
    by (simp add: roundBinary_def Let_def)
  show "roundBinary p emin emax x \<noteq> NInf"
    using assms by (auto simp: roundBinary_def Let_def)
qed

lemma round_finite:
  assumes "\<bar>x\<bar> \<le> 2 powi emax" and "1 \<le> p" and "emin \<le> emax"
  shows "\<exists>r. roundBinary p emin emax x = Fin r"
proof (cases "x = 0")
  case True
  then show ?thesis by (simp add: roundBinary_def)
next
  case False
  then have ax: "0 < \<bar>x\<bar>" by simp
  let ?il = "ilog2 \<bar>x\<bar>"
  let ?q = "(2::rat) powi (max ?il emin - p + 1)"
  let ?r = "of_int (rhe (x / ?q)) * ?q"
  have qpos: "0 < ?q" by simp
  from ilog2_bounds [OF ax] assms(1) have "(2::rat) powi ?il \<le> 2 powi emax" by linarith
  then have "?il \<le> emax" by (rule pow2_le_mono)
  with assms(2,3) have "max ?il emin - p + 1 \<le> emax" by simp
  then have q: "?q \<le> 2 powi emax" by (rule pow2_mono)
  have "\<bar>of_int (rhe (x / ?q)) - x / ?q\<bar> \<le> 1 / 2" by (rule rhe_error)
  then have "\<bar>of_int (rhe (x / ?q))\<bar> \<le> \<bar>x / ?q\<bar> + 1 / 2" by linarith
  then have "\<bar>of_int (rhe (x / ?q))\<bar> * ?q \<le> (\<bar>x / ?q\<bar> + 1 / 2) * ?q"
    using qpos by (intro mult_right_mono) simp_all
  also have "\<dots> = \<bar>x\<bar> + ?q / 2" using qpos by (simp add: algebra_simps abs_mult)
  also have "\<dots> \<le> 2 powi emax + 2 powi emax / 2" using assms(1) q by linarith
  also have "\<dots> < 2 powi (emax + 1)" by (simp add: power_int_add)
  finally have "\<bar>?r\<bar> < 2 powi (emax + 1)" using qpos by (simp add: abs_mult)
  then show ?thesis using round_unfold [OF False, of p emin emax] by simp
qed

lemma round_cert0:
  assumes "max (ilog2 \<bar>x\<bar>) emin = e" and "x \<noteq> 0"
    and "rhe (x / 2 powi (e - p + 1)) = k"
    and "\<bar>of_int k * (2::rat) powi (e - p + 1)\<bar> < 2 powi (emax + 1)"
  shows "roundBinary p emin emax x = Fin (of_int k * 2 powi (e - p + 1))"
  using assms(1,3,4) round_unfold [OF assms(2), of p emin emax] by simp

lemma round_cert:
  assumes "max (ilog2 \<bar>x\<bar>) emin = e" and "x \<noteq> 0"
    and "\<bar>x / 2 powi (e - p + 1) - of_int k\<bar> < 1 / 2"
    and "\<bar>of_int k * (2::rat) powi (e - p + 1)\<bar> < 2 powi (emax + 1)"
  shows "roundBinary p emin emax x = Fin (of_int k * 2 powi (e - p + 1))"
proof -
  from assms(3) have "rhe (x / 2 powi (e - p + 1)) = k" by (rule rhe_near)
  with assms(1,2) show ?thesis using assms(4) by (intro round_cert0)
qed

lemma round_near:
  assumes "2 powi e \<le> \<bar>x\<bar>" and "\<bar>x\<bar> < 2 powi (e + 1)" and "emin \<le> e"
    and "\<bar>x / 2 powi (e - p + 1) - of_int k\<bar> < 1 / 2"
    and "\<bar>of_int k * (2::rat) powi (e - p + 1)\<bar> < 2 powi (emax + 1)"
  shows "roundBinary p emin emax x = Fin (of_int k * 2 powi (e - p + 1))"
proof -
  from assms(1,2) have il: "ilog2 \<bar>x\<bar> = e" by (rule ilog2_unique)
  have "(0::rat) < 2 powi e" by simp
  with assms(1) have "0 < \<bar>x\<bar>" by linarith
  then have "x \<noteq> 0" by simp
  moreover from il assms(3) have "max (ilog2 \<bar>x\<bar>) emin = e" by simp
  ultimately show ?thesis using assms(4,5) by (intro round_cert)
qed

lemma round_tiny:
  assumes "x \<noteq> 0" and "\<bar>x\<bar> < 2 powi emin"
    and "\<bar>x / 2 powi (emin - p + 1) - of_int k\<bar> < 1 / 2"
    and "\<bar>of_int k * (2::rat) powi (emin - p + 1)\<bar> < 2 powi (emax + 1)"
  shows "roundBinary p emin emax x = Fin (of_int k * 2 powi (emin - p + 1))"
proof -
  from assms(1) have ax: "0 < \<bar>x\<bar>" by simp
  from ilog2_bounds [OF ax] assms(2) have "(2::rat) powi (ilog2 \<bar>x\<bar>) < 2 powi emin" by linarith
  then have "ilog2 \<bar>x\<bar> < emin" by (rule pow2_less_mono)
  then have "max (ilog2 \<bar>x\<bar>) emin = emin" by simp
  then show ?thesis using assms(1,3,4) by (intro round_cert)
qed

lemma round_int:
  assumes "\<bar>of_int k\<bar> < (2::rat) powi p" and "emin \<le> 0" and "p \<le> emax + 1"
  shows "roundBinary p emin emax (of_int k) = Fin (of_int k)"
proof (cases "k = 0")
  case True
  then show ?thesis by (simp add: roundBinary_def)
next
  case False
  let ?x = "of_int k :: rat"
  from False have ax: "0 < \<bar>?x\<bar>" by simp
  let ?il = "ilog2 \<bar>?x\<bar>"
  note b = ilog2_bounds [OF ax]
  from False have "1 \<le> \<bar>k\<bar>" by simp
  then have "(1::rat) \<le> \<bar>?x\<bar>" by (metis of_int_abs of_int_1_le_iff)
  with b have "(2::rat) powi 0 < 2 powi (?il + 1)" by simp
  then have il0: "0 \<le> ?il" using pow2_less_mono [of 0 "?il + 1"] by simp
  from b assms(1) have "(2::rat) powi ?il < 2 powi p" by linarith
  then have ilp: "?il < p" by (rule pow2_less_mono)
  from il0 assms(2) have mx: "max ?il emin = ?il" by simp
  let ?n = "nat (p - 1 - ?il)"
  have q: "(2::rat) powi (?il - p + 1) = inverse (2 ^ ?n)"
  proof -
    have "(2::rat) powi (?il - p + 1) = 2 powi (- (p - 1 - ?il))" by (simp add: algebra_simps)
    also have "\<dots> = inverse (2 powi (p - 1 - ?il))" by (rule power_int_minus)
    also have "(2::rat) powi (p - 1 - ?il) = 2 ^ ?n" using ilp by (simp add: pow2_nat)
    finally show ?thesis .
  qed
  have "?x / 2 powi (?il - p + 1) = of_int (k * 2 ^ ?n)"
    by (simp add: q divide_inverse)
  then have c3: "\<bar>?x / 2 powi (?il - p + 1) - of_int (k * 2 ^ ?n)\<bar> < 1 / 2" by simp
  have v: "of_int (k * 2 ^ ?n) * (2::rat) powi (?il - p + 1) = ?x"
    by (simp add: q)
  have "(2::rat) powi p \<le> 2 powi (emax + 1)" using assms(3) by (rule pow2_mono)
  with assms(1) have "\<bar>?x\<bar> < 2 powi (emax + 1)" by linarith
  then have c4: "\<bar>of_int (k * 2 ^ ?n) * (2::rat) powi (?il - p + 1)\<bar> < 2 powi (emax + 1)"
    by (simp only: v)
  from False have nz: "?x \<noteq> 0" by simp
  from round_cert [OF mx nz c3 c4] v show ?thesis by simp
qed

lemma rd64_int: "\<bar>k\<bar> < 2 ^ 53 \<Longrightarrow> rd64 (of_int k) = Fin (of_int k)"
proof -
  assume "\<bar>k\<bar> < 2 ^ 53"
  then have "(of_int \<bar>k\<bar> :: rat) < of_int (2 ^ 53)" by (simp only: of_int_less_iff)
  then have "\<bar>of_int k\<bar> < (2::rat) powi 53" by simp
  then show ?thesis unfolding rd64_def by (rule round_int) simp_all
qed

lemma rd32_int: "\<bar>k\<bar> < 2 ^ 24 \<Longrightarrow> rd32 (of_int k) = Fin (of_int k)"
proof -
  assume "\<bar>k\<bar> < 2 ^ 24"
  then have "(of_int \<bar>k\<bar> :: rat) < of_int (2 ^ 24)" by (simp only: of_int_less_iff)
  then have "\<bar>of_int k\<bar> < (2::rat) powi 24" by simp
  then show ?thesis unfolding rd32_def by (rule round_int) simp_all
qed

lemma rd64_0 [simp]: "rd64 0 = Fin 0"
  by (simp add: rd64_def roundBinary_def)

lemma rd32_0 [simp]: "rd32 0 = Fin 0"
  by (simp add: rd32_def roundBinary_def)

lemma rd64_numeral: "(numeral k :: int) < 2 ^ 53 \<Longrightarrow> rd64 (numeral k) = Fin (numeral k)"
  using rd64_int [of "numeral k"] by simp

lemma rd64_neg_numeral:
  "(numeral k :: int) < 2 ^ 53 \<Longrightarrow> rd64 (- numeral k) = Fin (- numeral k)"
  using rd64_int [of "- numeral k"] by simp

lemma rd64_1 [simp]: "rd64 1 = Fin 1"
  using rd64_int [of 1] by simp

lemma rd32_numeral: "(numeral k :: int) < 2 ^ 24 \<Longrightarrow> rd32 (numeral k) = Fin (numeral k)"
  using rd32_int [of "numeral k"] by simp

lemma rd32_neg_numeral:
  "(numeral k :: int) < 2 ^ 24 \<Longrightarrow> rd32 (- numeral k) = Fin (- numeral k)"
  using rd32_int [of "- numeral k"] by simp

lemma rd32_1 [simp]: "rd32 1 = Fin 1"
  using rd32_int [of 1] by simp

lemma rd32_neg_1 [simp]: "rd32 (- 1) = Fin (- 1)"
  using rd32_int [of "- 1"] by simp

lemma rd64_neg_1 [simp]: "rd64 (- 1) = Fin (- 1)"
  using rd64_int [of "- 1"] by simp

lemma rd64_two_53: "rd64 (2 ^ 53) = Fin (2 ^ 53)"
  unfolding rd64_def
  using round_near [of 53 "2 ^ 53" "- 1022" 53 "2 ^ 52" 1023]
  by simp

lemma rd64_succ:
  assumes "\<bar>c\<bar> < 2 ^ 53"
  shows "rd64 (of_int c + 1) = Fin (of_int c + 1)"
proof (cases "c + 1 = 2 ^ 53")
  case True
  then have "(of_int c + 1 :: rat) = of_int (2 ^ 53)" by (metis of_int_1 of_int_add)
  then show ?thesis using rd64_two_53 by simp
next
  case False
  with assms have "\<bar>c + 1\<bar> < 2 ^ 53" by linarith
  from rd64_int [OF this] show ?thesis by simp
qed

lemma nextRequestId_succ: "\<bar>c\<bar> < 2 ^ 53 \<Longrightarrow> nextRequestId c = c + 1"
  by (simp add: nextRequestId_def rd64_succ)

lemma rd64_two_53_plus_1: "rd64 (2 ^ 53 + 1) = Fin (2 ^ 53)"
proof -
  have "ilog2 \<bar>2 ^ 53 + 1 :: rat\<bar> = 53"
    by (rule ilog2_unique) simp_all
  then have m: "max (ilog2 \<bar>2 ^ 53 + 1 :: rat\<bar>) (- 1022) = 53" by simp
  have fl: "\<lfloor>(2 ^ 53 + 1 :: rat) / 2\<rfloor> = 2 ^ 52"
    by (rule floor_unique) simp_all
  have "rhe ((2 ^ 53 + 1) / 2) = 2 ^ 52"
    unfolding rhe_def Let_def fl by simp
  then have r: "rhe ((2 ^ 53 + 1) / 2 powi (53 - 53 + 1)) = 2 ^ 52" by simp
  have nz: "(2 ^ 53 + 1 :: rat) \<noteq> 0" by simp
  have b: "\<bar>of_int (2 ^ 52) * (2::rat) powi (53 - 53 + 1)\<bar> < 2 powi (1023 + 1)" by simp
  from round_cert0 [OF m nz r b] show ?thesis by (simp add: rd64_def)
qed

lemma nextRequestId_saturates: "nextRequestId (2 ^ 53) = 2 ^ 53"
  using rd64_two_53_plus_1 by (simp add: nextRequestId_def)

section \<open>Properties of the session controller\<close>

lemma clearProgressState_cleared: "progressStateCleared (clearProgressState s)"
  by (simp add: progressStateCleared_def clearProgressState_def)

lemma stale_tag_dropped:
  assumes "staleId (requestIdOf msg) s" and "\<not> isDownloadProgress msg"
  shows "handleWorkerMessage now later msg s = s"
proof (cases msg)
  case (StatusMsg m)
  with assms show ?thesis by (simp add: requestIdOf_def handleStatus_def)
next
  case (ProgressMsg m)
  with assms have "pr_phase m = Phase_transcribing"
    by (cases "pr_phase m") (simp_all add: isDownloadProgress_def)
  with assms ProgressMsg show ?thesis
    by (simp add: requestIdOf_def handleProgress_def)
next
  case (PartialMsg body rid)
  with assms show ?thesis by (simp add: requestIdOf_def staleId_def)
next
  case (SegmentsMsg rid body segs)
  with assms show ?thesis by (simp add: requestIdOf_def staleId_def)
next
  case (ResultMsg body rid)
  with assms show ?thesis by (simp add: requestIdOf_def staleId_def)
next
  case (ErrorMsg err rid)
  with assms show ?thesis by (simp add: requestIdOf_def)
qed

lemma atRequest2_simps:
  "activeRequestId atRequest2 = 2"
  "workerRef atRequest2 = Some 0"
  "workers atRequest2 = [\<lparr>posted = [Load], terminated = False\<rparr>]"
  "outputText atRequest2 = []"
  "segments atRequest2 = []"
  "progress atRequest2 = 0"
  "downloadedBytes atRequest2 = None"
  "totalBytes atRequest2 = None"
  "transcribeStartedAt atRequest2 = None"
  by (simp_all add: atRequest2_def initializeWorker_def initialState_def)

lemma inFlight_simps:
  "activeRequestId inFlight = 2"
  "workerRef inFlight = Some 0"
  "workers inFlight = [\<lparr>posted = [Load], terminated = False\<rparr>]"
  "status inFlight = Status_transcribing"
  "outputText inFlight = ''hello''"
  "segments inFlight = [\<lparr>seg_text = ''hello'', seg_start = 0, seg_end = 2\<rparr>]"
  "progress inFlight = 25"
  "etaSeconds inFlight = Some (Fin 18)"
  "transcribeStartedAt inFlight = Some 1000"
  by (simp_all add: inFlight_def arrival_def transcribeProgress_def handleProgress_def
      staleId_def clampProgress_def estimateRemaining_def clearTranscribeProgress_def Let_def
      atRequest2_simps dsub_def rd64_numeral)

subsection \<open>Stale messages\<close>

text \<open>
  C1, as the code has it. A message that carries a request identifier different from the
  current counter is dropped, and the state stays exactly as it was, for every kind of
  message but one: a \<^verbatim>\<open>progress\<close> message of the download phase is not filtered by
  its request identifier (the guard of the progress branch tests
  \<^verbatim>\<open>message.phase === "transcribing"\<close> first).
\<close>

theorem stale_message_dropped:
  assumes "carriesStaleId msg s" and "\<not> isDownloadProgress msg"
  shows "handleWorkerMessage now later msg s = s"
  using assms by (simp add: carriesStaleId_def stale_tag_dropped)

theorem stale_message_dropped_witness:
  "carriesStaleId (ResultMsg ''old'' 1) atRequest2
   \<and> \<not> isDownloadProgress (ResultMsg ''old'' 1)
   \<and> handleWorkerMessage 0 0 (ResultMsg ''old'' 1) atRequest2 = atRequest2"
proof -
  have a: "carriesStaleId (ResultMsg ''old'' 1) atRequest2"
    by (simp add: carriesStaleId_def requestIdOf_def staleId_def atRequest2_simps)
  have b: "\<not> isDownloadProgress (ResultMsg ''old'' 1)"
    by (simp add: isDownloadProgress_def)
  from stale_message_dropped [OF a b, of 0 0] a b show ?thesis by blast
qed

text \<open>
  C1 as it is stated fails: with the counter at 2, a download-phase progress message
  tagged with request 1 is applied. It sets the phase, the percentage, the status and the
  byte counters.
\<close>

theorem stale_download_progress_applied:
  "carriesStaleId (downloadProgress 50 (Some 1) (Some 5) (Some 10)) atRequest2
   \<and> progress atRequest2 = 0
   \<and> progress (handleWorkerMessage 0 0 (downloadProgress 50 (Some 1) (Some 5) (Some 10)) atRequest2) = 50
   \<and> downloadedBytes (handleWorkerMessage 0 0 (downloadProgress 50 (Some 1) (Some 5) (Some 10)) atRequest2) = Some 5
   \<and> handleWorkerMessage 0 0 (downloadProgress 50 (Some 1) (Some 5) (Some 10)) atRequest2 \<noteq> atRequest2"
proof -
  have p: "progress (handleWorkerMessage 0 0 (downloadProgress 50 (Some 1) (Some 5) (Some 10)) atRequest2) = 50"
    by (simp add: downloadProgress_def handleProgress_def clampProgress_def)
  have d: "downloadedBytes (handleWorkerMessage 0 0 (downloadProgress 50 (Some 1) (Some 5) (Some 10)) atRequest2) = Some 5"
    by (simp add: downloadProgress_def handleProgress_def)
  have c: "carriesStaleId (downloadProgress 50 (Some 1) (Some 5) (Some 10)) atRequest2"
    by (simp add: carriesStaleId_def requestIdOf_def staleId_def downloadProgress_def atRequest2_simps)
  have z: "progress atRequest2 = 0" by (simp add: atRequest2_simps)
  from p z have "handleWorkerMessage 0 0 (downloadProgress 50 (Some 1) (Some 5) (Some 10)) atRequest2 \<noteq> atRequest2"
    by auto
  with p d c z show ?thesis by blast
qed

subsection \<open>Cancellation\<close>

lemma cancel_fields:
  fixes s :: AppState and workerSupported :: bool
  defines "s' \<equiv> cancelTranscription workerSupported s"
  shows "activeRequestId s' = nextRequestId (activeRequestId s)"
    and "status s' = Status_idle"
    and "error s' = None"
    and "progressStateCleared s'"
  unfolding s'_def
  by (simp_all add: cancelTranscription_def Let_def initializeWorker_def terminateCurrent_def
      clearProgressState_def progressStateCleared_def split: option.splits)

lemma cancel_workers:
  fixes s :: AppState and workerSupported :: bool
  defines "s' \<equiv> cancelTranscription workerSupported s"
  shows "workerRef s = Some w \<Longrightarrow> w < length (workers s) \<Longrightarrow> terminated (workers s' ! w)"
    and "workerSupported \<Longrightarrow> workerRef s' = Some (length (workers s))"
    and "workerSupported \<Longrightarrow> length (workers s') = Suc (length (workers s))"
    and "workerSupported \<Longrightarrow>
           workers s' ! length (workers s) = \<lparr>posted = [Load], terminated = False\<rparr>"
  unfolding s'_def
  by (simp_all add: cancelTranscription_def Let_def initializeWorker_def terminateCurrent_def
      clearProgressState_def nth_append split: option.splits)

lemma cancel_supersedes:
  assumes "\<bar>activeRequestId s\<bar> < 2 ^ 53"
    and "requestIdOf msg = Some (activeRequestId s)" and "\<not> isDownloadProgress msg"
  shows "handleWorkerMessage now later msg (cancelTranscription workerSupported s)
         = cancelTranscription workerSupported s"
proof -
  have "activeRequestId (cancelTranscription workerSupported s) = activeRequestId s + 1"
    using cancel_fields(1) [of workerSupported s] assms(1) by (simp add: nextRequestId_succ)
  with assms(2) have "staleId (requestIdOf msg) (cancelTranscription workerSupported s)"
    by (simp add: staleId_def)
  then show ?thesis using assms(3) by (rule stale_tag_dropped)
qed

text \<open>
  C2, as the code has it. Whatever the state, \<^verbatim>\<open>cancelTranscription\<close> sets the status
  to idle, clears the error message and clears the in-flight progress state (percentage 0;
  phase, chunk, byte and slice counters, ETA and transcribe start time empty). The unit
  that was current is terminated, and on a platform that has \<^verbatim>\<open>Worker\<close> the current
  unit is a new one, created by this call, whose only request so far is \<^verbatim>\<open>load\<close>.
  While the request counter is below \<open>2^53\<close> in magnitude the call adds one to it, and
  from then on a message tagged with the superseded identifier is dropped, unless it is a
  download-phase progress message, which is never filtered by its identifier.
\<close>

theorem cancelTranscription_effects:
  fixes s :: AppState and workerSupported :: bool
  defines "s' \<equiv> cancelTranscription workerSupported s"
  shows "status s' = Status_idle
    \<and> error s' = None
    \<and> progressStateCleared s'
    \<and> (\<forall>w. workerRef s = Some w \<and> w < length (workers s) \<longrightarrow> terminated (workers s' ! w))
    \<and> (workerSupported \<longrightarrow>
          workerRef s' = Some (length (workers s))
          \<and> length (workers s') = Suc (length (workers s))
          \<and> workers s' ! length (workers s) = \<lparr>posted = [Load], terminated = False\<rparr>)
    \<and> (\<bar>activeRequestId s\<bar> < 2 ^ 53 \<longrightarrow>
          activeRequestId s' = activeRequestId s + 1
          \<and> (\<forall>now later msg.
                requestIdOf msg = Some (activeRequestId s) \<and> \<not> isDownloadProgress msg
                \<longrightarrow> handleWorkerMessage now later msg s' = s'))"
proof -
  have c: "activeRequestId s' = activeRequestId s + 1" if "\<bar>activeRequestId s\<bar> < 2 ^ 53"
    unfolding s'_def using cancel_fields(1) [of workerSupported s] that
    by (simp add: nextRequestId_succ)
  show ?thesis
    unfolding s'_def
    using cancel_fields(2-4) [where workerSupported = workerSupported and s = s]
      cancel_workers [where workerSupported = workerSupported and s = s]
      cancel_supersedes [where workerSupported = workerSupported and s = s]
      c [unfolded s'_def]
    by blast
qed

theorem cancelTranscription_effects_witness:
  "status inFlight = Status_transcribing
   \<and> workerRef inFlight = Some 0 \<and> 0 < length (workers inFlight)
   \<and> \<bar>activeRequestId inFlight\<bar> < 2 ^ 53
   \<and> requestIdOf (ResultMsg ''late'' 2) = Some (activeRequestId inFlight)
   \<and> \<not> isDownloadProgress (ResultMsg ''late'' 2)
   \<and> activeRequestId (cancelTranscription True inFlight) = 3
   \<and> status (cancelTranscription True inFlight) = Status_idle
   \<and> progressStateCleared (cancelTranscription True inFlight)
   \<and> terminated (workers (cancelTranscription True inFlight) ! 0)
   \<and> workerRef (cancelTranscription True inFlight) = Some 1
   \<and> workers (cancelTranscription True inFlight) ! 1 = \<lparr>posted = [Load], terminated = False\<rparr>
   \<and> handleWorkerMessage 9000 9000 (ResultMsg ''late'' 2) (cancelTranscription True inFlight)
       = cancelTranscription True inFlight"
proof -
  have h1: "workerRef inFlight = Some 0 \<and> 0 < length (workers inFlight)"
    by (simp add: inFlight_simps)
  have h2: "requestIdOf (ResultMsg ''late'' 2) = Some (activeRequestId inFlight)
            \<and> \<not> isDownloadProgress (ResultMsg ''late'' 2)"
    by (simp add: requestIdOf_def isDownloadProgress_def inFlight_simps)
  have h3: "status inFlight = Status_transcribing" by (simp add: inFlight_simps)
  have h4: "\<bar>activeRequestId inFlight\<bar> < 2 ^ 53" by (simp add: inFlight_simps)
  from cancelTranscription_effects [of True inFlight] h1 h2 h3 h4 show ?thesis
    by (simp add: inFlight_simps)
qed

text \<open>
  C2 as it is stated fails: right after a cancellation during the session in flight, a
  download-phase progress message tagged with the superseded request 2 is applied. The
  status goes from idle to loading and the percentage from 0 to 50.
\<close>

theorem superseded_download_progress_applied:
  "requestIdOf (downloadProgress 50 (Some 2) (Some 5) (Some 10)) = Some (activeRequestId inFlight)
   \<and> status (cancelTranscription True inFlight) = Status_idle
   \<and> progress (cancelTranscription True inFlight) = 0
   \<and> status (handleWorkerMessage 9000 9000 (downloadProgress 50 (Some 2) (Some 5) (Some 10))
               (cancelTranscription True inFlight)) = Status_loading
   \<and> progress (handleWorkerMessage 9000 9000 (downloadProgress 50 (Some 2) (Some 5) (Some 10))
                 (cancelTranscription True inFlight)) = 50"
proof -
  have a: "requestIdOf (downloadProgress 50 (Some 2) (Some 5) (Some 10)) = Some (activeRequestId inFlight)"
    by (simp add: requestIdOf_def downloadProgress_def inFlight_simps)
  have b: "status (cancelTranscription True inFlight) = Status_idle"
    "progress (cancelTranscription True inFlight) = 0"
    using cancel_fields(2,4) [of True inFlight] by (simp_all add: progressStateCleared_def)
  have c: "status (handleWorkerMessage 9000 9000 (downloadProgress 50 (Some 2) (Some 5) (Some 10))
               (cancelTranscription True inFlight)) = Status_loading"
    "progress (handleWorkerMessage 9000 9000 (downloadProgress 50 (Some 2) (Some 5) (Some 10))
                 (cancelTranscription True inFlight)) = 50"
    by (simp_all add: downloadProgress_def handleProgress_def clampProgress_def)
  from a b c show ?thesis by blast
qed

subsection \<open>Errors\<close>

text \<open>
  C4. An \<^verbatim>\<open>error\<close> message that is unscoped or tagged with the current request sets
  the status to error, stores its text as the error message and clears the in-flight
  progress state; the output text and the segments stay as they were. The handler of a
  fault of the unit itself (\<^verbatim>\<open>worker.onerror\<close>) does the same, with the event's
  message, or a fixed text when the event has none.
\<close>

theorem error_keeps_transcript:
  assumes "rid = None \<or> rid = Some (activeRequestId s)"
  shows "status (handleWorkerMessage now later (ErrorMsg err rid) s) = Status_error
    \<and> error (handleWorkerMessage now later (ErrorMsg err rid) s) = Some err
    \<and> progressStateCleared (handleWorkerMessage now later (ErrorMsg err rid) s)
    \<and> outputText (handleWorkerMessage now later (ErrorMsg err rid) s) = outputText s
    \<and> segments (handleWorkerMessage now later (ErrorMsg err rid) s) = segments s
    \<and> status (workerOnError msg s) = Status_error
    \<and> error (workerOnError msg s)
        = Some (if msg = [] then ''Worker encountered an unexpected error.'' else msg)
    \<and> progressStateCleared (workerOnError msg s)
    \<and> outputText (workerOnError msg s) = outputText s
    \<and> segments (workerOnError msg s) = segments s"
proof -
  from assms have "\<not> staleId rid s" by (auto simp: staleId_def)
  then have e: "handleWorkerMessage now later (ErrorMsg err rid) s
                = clearProgressState (s\<lparr>status := Status_error, error := Some err\<rparr>)"
    by simp
  show ?thesis
    unfolding e workerOnError_def
    by (simp add: clearProgressState_cleared) (simp add: clearProgressState_def)
qed

theorem error_keeps_transcript_witness:
  "(Some 2 = None \<or> Some 2 = Some (activeRequestId inFlight))
   \<and> outputText inFlight = ''hello''
   \<and> status (handleWorkerMessage 9000 9000 (ErrorMsg ''out of memory'' (Some 2)) inFlight) = Status_error
   \<and> error (handleWorkerMessage 9000 9000 (ErrorMsg ''out of memory'' (Some 2)) inFlight)
       = Some ''out of memory''
   \<and> progressStateCleared (handleWorkerMessage 9000 9000 (ErrorMsg ''out of memory'' (Some 2)) inFlight)
   \<and> outputText (handleWorkerMessage 9000 9000 (ErrorMsg ''out of memory'' (Some 2)) inFlight) = ''hello''
   \<and> segments (handleWorkerMessage 9000 9000 (ErrorMsg ''out of memory'' (Some 2)) inFlight)
       = [\<lparr>seg_text = ''hello'', seg_start = 0, seg_end = 2\<rparr>]
   \<and> error (workerOnError [] inFlight) = Some ''Worker encountered an unexpected error.''
   \<and> outputText (workerOnError [] inFlight) = ''hello''"
proof -
  have h: "Some 2 = None \<or> Some 2 = Some (activeRequestId inFlight)"
    by (simp add: inFlight_simps)
  from error_keeps_transcript [OF h, of 9000 9000 "''out of memory''" "[]"] h show ?thesis
    by (simp add: inFlight_simps)
qed

subsection \<open>Phase transition\<close>

lemma afterDownload_simps:
  "activeRequestId afterDownload = 2"
  "progressPhase afterDownload = Some Phase_download"
  "downloadedBytes afterDownload = Some 5"
  "totalBytes afterDownload = Some 10"
  "transcribeStartedAt afterDownload = None"
  by (simp_all add: afterDownload_def downloadProgress_def handleProgress_def atRequest2_simps)

text \<open>
  C3 as it is stated fails: after a download-phase progress message that reported 5 of 10
  bytes, the first transcribe-phase progress message leaves both byte counters in the
  state.
\<close>

theorem download_bytes_carried_over:
  "progressPhase afterDownload = Some Phase_download
   \<and> progressPhase afterTranscribe = Some Phase_transcribing
   \<and> downloadedBytes afterTranscribe = Some 5
   \<and> totalBytes afterTranscribe = Some 10"
  by (simp add: afterTranscribe_def transcribeProgress_def handleProgress_def staleId_def
      afterDownload_simps)

text \<open>
  C3, as the code has it. Every download-phase progress message resets the chunk
  counters, the ETA and the transcribe start time. A transcribe-phase progress message
  that is handled after it sets the phase, the percentage and the chunk counters from its
  own fields and records the start time; it does not touch the downloaded-bytes and
  total-bytes counters, which keep their values until \<^verbatim>\<open>clearProgressState\<close> runs.
\<close>

theorem transcribe_progress_after_download:
  fixes s :: AppState and d m :: ProgressFields and t1 u1 t2 u2 :: int
  assumes "pr_phase d = Phase_download" and "pr_phase m = Phase_transcribing"
    and "\<not> staleId (pr_requestId m) s"
  defines "s1 \<equiv> handleWorkerMessage t1 u1 (ProgressMsg d) s"
  defines "s2 \<equiv> handleWorkerMessage t2 u2 (ProgressMsg m) s1"
  shows "processedChunks s1 = None \<and> totalChunks s1 = None \<and> etaSeconds s1 = None
    \<and> transcribeStartedAt s1 = None
    \<and> progressPhase s2 = Some Phase_transcribing
    \<and> progress s2 = clampProgress (pr_progress m)
    \<and> processedChunks s2 = pr_processedChunks m
    \<and> totalChunks s2 = pr_totalChunks m
    \<and> transcribeStartedAt s2 = Some t2
    \<and> downloadedBytes s2 = downloadedBytes s1
    \<and> totalBytes s2 = totalBytes s1
    \<and> downloadedBytes (clearProgressState s2) = None
    \<and> totalBytes (clearProgressState s2) = None"
proof -
  have a: "processedChunks s1 = None \<and> totalChunks s1 = None \<and> etaSeconds s1 = None
           \<and> transcribeStartedAt s1 = None \<and> activeRequestId s1 = activeRequestId s"
    using assms(1) unfolding s1_def
    by (simp add: handleProgress_def Let_def split: option.splits)
  with assms(3) have ns: "\<not> staleId (pr_requestId m) s1"
    by (simp add: staleId_def split: option.splits)
  have b: "progressPhase s2 = Some Phase_transcribing
           \<and> progress s2 = clampProgress (pr_progress m)
           \<and> processedChunks s2 = pr_processedChunks m
           \<and> totalChunks s2 = pr_totalChunks m
           \<and> transcribeStartedAt s2 = Some t2
           \<and> downloadedBytes s2 = downloadedBytes s1
           \<and> totalBytes s2 = totalBytes s1"
    using assms(2) ns a unfolding s2_def
    by (simp add: handleProgress_def Let_def split: option.splits)
  have c: "downloadedBytes (clearProgressState s2) = None \<and> totalBytes (clearProgressState s2) = None"
    by (simp add: clearProgressState_def)
  from a b c show ?thesis by blast
qed

theorem transcribe_progress_after_download_witness:
  "downloadedBytes afterDownload = Some 5 \<and> totalBytes afterDownload = Some 10
   \<and> progressPhase afterTranscribe = Some Phase_transcribing
   \<and> processedChunks afterTranscribe = Some 0 \<and> totalChunks afterTranscribe = Some 4
   \<and> transcribeStartedAt afterTranscribe = Some 2000
   \<and> downloadedBytes afterTranscribe = Some 5 \<and> totalBytes afterTranscribe = Some 10
   \<and> downloadedBytes (clearProgressState afterTranscribe) = None"
proof -
  let ?d = "\<lparr>pr_phase = Phase_download, pr_progress = 50, pr_requestId = None,
       pr_processedChunks = None, pr_totalChunks = None, pr_currentSlice = None,
       pr_totalSlices = None, pr_loaded = Some 5, pr_total = Some 10, pr_file = None\<rparr>"
  let ?m = "\<lparr>pr_phase = Phase_transcribing, pr_progress = 0, pr_requestId = Some 2,
       pr_processedChunks = Some 0, pr_totalChunks = Some 4, pr_currentSlice = None,
       pr_totalSlices = None, pr_loaded = None, pr_total = None, pr_file = None\<rparr>"
  have h1: "pr_phase ?d = Phase_download" by simp
  have h2: "pr_phase ?m = Phase_transcribing" by simp
  have h3: "\<not> staleId (pr_requestId ?m) atRequest2" by (simp add: staleId_def atRequest2_simps)
  from transcribe_progress_after_download [OF h1 h2 h3, of 2000 2000 1000 1000] show ?thesis
    by (simp add: afterTranscribe_def afterDownload_def downloadProgress_def
        transcribeProgress_def handleProgress_def staleId_def clearProgressState_def
        atRequest2_simps)
qed

section \<open>Properties of the structured export\<close>

text \<open>
  C9. The payload is built from the output text, the segments, the file name and the
  selected language of the state, and from the clock, and from nothing else: two states
  that agree on these four give the same record at the same clock reading. Building it
  again after a first call gives the same record when the clock has not moved, and a
  record that differs in \<open>createdAt\<close> only when it has. The call leaves the state as
  it found it.
\<close>

theorem export_payload_idempotent:
  "fst (buildJsonExportPayload toISO t (snd (buildJsonExportPayload toISO t s)))
     = fst (buildJsonExportPayload toISO t s)
   \<and> fst (buildJsonExportPayload toISO t2 (snd (buildJsonExportPayload toISO t1 s)))
     = (fst (buildJsonExportPayload toISO t1 s))\<lparr>createdAt := toISO t2\<rparr>
   \<and> snd (buildJsonExportPayload toISO t s) = s
   \<and> (outputText s = outputText s' \<and> segments s = segments s'
        \<and> activeFileName s = activeFileName s' \<and> selectedLanguage s = selectedLanguage s'
      \<longrightarrow> fst (buildJsonExportPayload toISO t s) = fst (buildJsonExportPayload toISO t s'))"
  by (simp add: buildJsonExportPayload_def)

theorem export_payload_idempotent_witness:
  "outputText inFlight = outputText (cancelTranscription True inFlight)
   \<and> segments inFlight = segments (cancelTranscription True inFlight)
   \<and> activeFileName inFlight = activeFileName (cancelTranscription True inFlight)
   \<and> selectedLanguage inFlight = selectedLanguage (cancelTranscription True inFlight)
   \<and> inFlight \<noteq> cancelTranscription True inFlight
   \<and> fst (buildJsonExportPayload (\<lambda>t. if t = 0 then ''1970-01-01T00:00:00.000Z'' else ''later'') 0 inFlight)
     = fst (buildJsonExportPayload (\<lambda>t. if t = 0 then ''1970-01-01T00:00:00.000Z'' else ''later'') 0
             (cancelTranscription True inFlight))
   \<and> export_text (fst (buildJsonExportPayload (\<lambda>t. if t = 0 then ''1970-01-01T00:00:00.000Z'' else ''later'') 0 inFlight))
     = ''hello''"
proof -
  have frame: "outputText inFlight = outputText (cancelTranscription True inFlight)
      \<and> segments inFlight = segments (cancelTranscription True inFlight)
      \<and> activeFileName inFlight = activeFileName (cancelTranscription True inFlight)
      \<and> selectedLanguage inFlight = selectedLanguage (cancelTranscription True inFlight)"
    by (simp add: cancelTranscription_def Let_def initializeWorker_def terminateCurrent_def
        clearProgressState_def split: option.splits)
  have "status inFlight \<noteq> status (cancelTranscription True inFlight)"
    by (simp add: inFlight_simps cancel_fields(2))
  then have ne: "inFlight \<noteq> cancelTranscription True inFlight" by auto
  have tx: "export_text (fst (buildJsonExportPayload
      (\<lambda>t. if t = 0 then ''1970-01-01T00:00:00.000Z'' else ''later'') 0 inFlight)) = ''hello''"
    by (simp add: buildJsonExportPayload_def inFlight_simps)
  from export_payload_idempotent
    [of "\<lambda>t. if t = 0 then ''1970-01-01T00:00:00.000Z'' else ''later''" 0 inFlight 0 0
        "cancelTranscription True inFlight"]
    frame ne tx
  show ?thesis by blast
qed

section \<open>Properties of the ETA estimator\<close>

lemma transcribe_step:
  fixes s :: AppState and now later :: int
  assumes "acceptedTranscribe msg s"
  defines "t0 \<equiv> (case transcribeStartedAt s of None \<Rightarrow> now | Some t \<Rightarrow> t)"
  shows "transcribeStartedAt (handleWorkerMessage now later msg s) = Some t0"
    and "etaSeconds (handleWorkerMessage now later msg s)
         = estimateRemaining later t0 (processedOf msg) (totalOf msg)"
    and "activeRequestId (handleWorkerMessage now later msg s) = activeRequestId s"
proof -
  from assms(1) obtain m where m: "msg = ProgressMsg m" "pr_phase m = Phase_transcribing"
      "\<not> staleId (pr_requestId m) s"
    by (cases msg) (simp_all add: acceptedTranscribe_def)
  show "transcribeStartedAt (handleWorkerMessage now later msg s) = Some t0"
    using m unfolding t0_def
    by (simp add: handleProgress_def Let_def split: option.splits)
  show "etaSeconds (handleWorkerMessage now later msg s)
         = estimateRemaining later t0 (processedOf msg) (totalOf msg)"
    using m unfolding t0_def
    by (simp add: handleProgress_def Let_def processedOf_def totalOf_def split: option.splits)
  show "activeRequestId (handleWorkerMessage now later msg s) = activeRequestId s"
    using m by (simp add: handleProgress_def Let_def split: option.splits)
qed

lemma acceptedTranscribe_cong:
  "activeRequestId s' = activeRequestId s \<Longrightarrow> acceptedTranscribe msg s \<Longrightarrow> acceptedTranscribe msg s'"
  by (simp add: acceptedTranscribe_def staleId_def split: WorkerResponse.splits option.splits)

lemma handleAll_snoc:
  "handleAll (es @ [e]) s
   = handleWorkerMessage (readAt e) (readAgainAt e) (message e) (handleAll es s)"
  by (induction es arbitrary: s) simp_all

lemma run_keeps_start:
  assumes "\<forall>e\<in>set es. acceptedTranscribe (message e) s" and "transcribeStartedAt s = Some t0"
  shows "transcribeStartedAt (handleAll es s) = Some t0 \<and> activeRequestId (handleAll es s) = activeRequestId s"
  using assms
proof (induction es arbitrary: s)
  case Nil
  then show ?case by simp
next
  case (Cons e es)
  let ?s1 = "handleWorkerMessage (readAt e) (readAgainAt e) (message e) s"
  from Cons.prems have acc: "acceptedTranscribe (message e) s" by simp
  have a: "activeRequestId ?s1 = activeRequestId s"
    using transcribe_step(3) [OF acc] .
  have b: "transcribeStartedAt ?s1 = Some t0"
    using transcribe_step(1) [OF acc, of "readAt e" "readAgainAt e"] Cons.prems(2) by simp
  from Cons.prems a have "\<forall>x\<in>set es. acceptedTranscribe (message x) ?s1"
    by (auto intro: acceptedTranscribe_cong)
  from Cons.IH [OF this b] a show ?case by simp
qed

lemma run_start_is_first:
  assumes "es \<noteq> []" and "\<forall>e\<in>set es. acceptedTranscribe (message e) s"
    and "transcribeStartedAt s = None"
  shows "transcribeStartedAt (handleAll es s) = Some (readAt (hd es))
         \<and> activeRequestId (handleAll es s) = activeRequestId s"
proof -
  from assms(1) obtain e rest where es: "es = e # rest" by (cases es) auto
  let ?s1 = "handleWorkerMessage (readAt e) (readAgainAt e) (message e) s"
  from assms(2) es have acc: "acceptedTranscribe (message e) s" by simp
  have a: "activeRequestId ?s1 = activeRequestId s"
    using transcribe_step(3) [OF acc] .
  have b: "transcribeStartedAt ?s1 = Some (readAt e)"
    using transcribe_step(1) [OF acc, of "readAt e" "readAgainAt e"] assms(3) by simp
  from assms(2) es a have "\<forall>x\<in>set rest. acceptedTranscribe (message x) ?s1"
    by (auto intro: acceptedTranscribe_cong)
  from run_keeps_start [OF this b] a es show ?thesis by simp
qed

lemma run_eta:
  assumes "es \<noteq> []" and "\<forall>e\<in>set es. acceptedTranscribe (message e) s"
    and "transcribeStartedAt s = None"
  shows "etaSeconds (handleAll es s)
         = estimateRemaining (readAgainAt (last es)) (readAt (hd es))
             (processedOf (message (last es))) (totalOf (message (last es)))"
proof (cases "butlast es = []")
  case True
  with assms(1) have es: "es = [last es]" by (metis append_butlast_last_id append_Nil)
  from assms(2) assms(1) have acc: "acceptedTranscribe (message (last es)) s" by simp
  have "handleAll es s
      = handleWorkerMessage (readAt (last es)) (readAgainAt (last es)) (message (last es)) s"
    by (subst es) simp
  moreover have "hd es = last es" by (subst es) (subst (2) es, simp)
  ultimately show ?thesis
    using transcribe_step(2) [OF acc, of "readAt (last es)" "readAgainAt (last es)"] assms(3) by simp
next
  case False
  let ?bs = "butlast es"
  let ?sb = "handleAll ?bs s"
  from assms(1) have es: "es = ?bs @ [last es]" by simp
  from assms(2) have accb: "\<forall>e\<in>set ?bs. acceptedTranscribe (message e) s"
    by (meson in_set_butlastD)
  from run_start_is_first [OF False accb assms(3)]
  have st: "transcribeStartedAt ?sb = Some (readAt (hd ?bs))" and id: "activeRequestId ?sb = activeRequestId s"
    by simp_all
  from assms(2) assms(1) have "acceptedTranscribe (message (last es)) s" by simp
  with id have acc: "acceptedTranscribe (message (last es)) ?sb" by (rule acceptedTranscribe_cong)
  have hd: "hd ?bs = hd es" using False by (metis es hd_append2)
  have "handleAll es s
      = handleWorkerMessage (readAt (last es)) (readAgainAt (last es)) (message (last es)) ?sb"
    by (subst es) (rule handleAll_snoc)
  then show ?thesis
    using transcribe_step(2) [OF acc, of "readAt (last es)" "readAgainAt (last es)"] st hd by simp
qed

lemma round_pos_jmax:
  assumes "0 \<le> x"
  shows "jmax (rd64 x) (Fin 0) = rd64 x"
proof (cases "rd64 x")
  case (Fin r)
  then have "0 \<le> r" using round_nonneg [OF assms, of 53 "- 1022" 1023 r] by (simp add: rd64_def)
  with Fin show ?thesis by simp
next
  case PInf
  then show ?thesis by simp
next
  case NInf
  with round_pos_not_NInf(1) [OF assms, of 53 "- 1022" 1023] show ?thesis by (simp add: rd64_def)
next
  case NaN
  with round_pos_not_NInf(2) [OF assms, of 53 "- 1022" 1023] show ?thesis by (simp add: rd64_def)
qed

lemma remaining_chunks: "p \<le> t \<Longrightarrow> jmax (dsub (Fin t) (Fin p)) (Fin 0) = dsub (Fin t) (Fin p)"
  by (simp add: dsub_def round_pos_jmax)

lemma estimate_some:
  assumes "1 \<le> p" and "p \<le> t"
  shows "estimateRemaining later t0 (Some p) (Some t)
         = Some (jceil (dmul (ddiv (ddiv (dsub (Fin (of_int later)) (Fin (of_int t0))) (Fin 1000))
                                   (Fin p))
                             (dsub (Fin t) (Fin p))))"
  using assms by (simp add: estimateRemaining_def Let_def remaining_chunks)

lemma estimate_none:
  "estimateRemaining later t0 (Some 0) t = None"
  "estimateRemaining later t0 None t = None"
  "estimateRemaining later t0 p None = None"
  by (simp_all add: estimateRemaining_def split: option.splits)

text \<open>
  C5, as the code has it. Take the transcribe-phase progress messages of one phase, from
  the first one (before which no start time is recorded) to the latest. The recorded
  start time is the first clock reading of the first message; \<open>elapsed\<close> is the
  difference between the second clock reading of the latest message and that start time,
  divided by 1000. If the latest message reports \<open>processed \<ge> 1\<close> and
  \<open>total \<ge> processed\<close>, the ETA is the ceiling of
  \<open>(elapsed / processed) * (total - processed)\<close>, where the subtractions, the divisions
  and the multiplication are those of double precision, each rounded to the nearest
  double. If it reports \<open>processed = 0\<close>, or lacks a counter, there is no ETA; and there
  is an ETA only if the latest message reports a positive \<open>processed\<close> that does not
  exceed \<open>total\<close>.
\<close>

theorem eta_estimate:
  fixes s :: AppState and es :: "Arrival list"
  assumes "es \<noteq> []" and "\<forall>e\<in>set es. acceptedTranscribe (message e) s"
    and "transcribeStartedAt s = None"
  defines "s' \<equiv> handleAll es s"
  defines "elapsed \<equiv>
    ddiv (dsub (Fin (of_int (readAgainAt (last es)))) (Fin (of_int (readAt (hd es))))) (Fin 1000)"
  defines "latest \<equiv> message (last es)"
  shows "transcribeStartedAt s' = Some (readAt (hd es))
    \<and> (\<forall>p t. processedOf latest = Some p \<and> totalOf latest = Some t \<and> 1 \<le> p \<and> p \<le> t
          \<longrightarrow> etaSeconds s'
              = Some (jceil (dmul (ddiv elapsed (Fin p)) (dsub (Fin t) (Fin p)))))
    \<and> (processedOf latest = Some 0 \<or> processedOf latest = None \<or> totalOf latest = None
          \<longrightarrow> etaSeconds s' = None)
    \<and> (etaSeconds s' \<noteq> None
          \<longrightarrow> (\<exists>p t. processedOf latest = Some p \<and> totalOf latest = Some t \<and> 0 < p \<and> p \<le> t))"
proof -
  have st: "transcribeStartedAt s' = Some (readAt (hd es))"
    unfolding s'_def using run_start_is_first [OF assms(1-3)] by simp
  have eta: "etaSeconds s'
      = estimateRemaining (readAgainAt (last es)) (readAt (hd es))
          (processedOf latest) (totalOf latest)"
    unfolding s'_def latest_def by (rule run_eta [OF assms(1-3)])
  have some: "etaSeconds s' = Some (jceil (dmul (ddiv elapsed (Fin p)) (dsub (Fin t) (Fin p))))"
    if "processedOf latest = Some p" "totalOf latest = Some t" "1 \<le> p" "p \<le> t" for p t
    using that eta estimate_some [of p t "readAgainAt (last es)" "readAt (hd es)"]
    by (simp add: elapsed_def)
  have none: "etaSeconds s' = None"
    if "processedOf latest = Some 0 \<or> processedOf latest = None \<or> totalOf latest = None"
    using that eta by (auto simp: estimate_none)
  have only: "\<exists>p t. processedOf latest = Some p \<and> totalOf latest = Some t \<and> 0 < p \<and> p \<le> t"
    if "etaSeconds s' \<noteq> None"
    using that unfolding eta
    by (auto simp: estimateRemaining_def split: option.splits if_splits)
  from st some none only show ?thesis by blast
qed

lemma threeOfEight_accepted:
  "threeOfEight \<noteq> []"
  "\<forall>e\<in>set threeOfEight. acceptedTranscribe (message e) atRequest2"
  "readAt (hd threeOfEight) = 1000"
  "readAgainAt (last threeOfEight) = 5200"
  "processedOf (message (last threeOfEight)) = Some 3"
  "totalOf (message (last threeOfEight)) = Some 8"
  by (simp_all add: threeOfEight_def arrival_def acceptedTranscribe_def transcribeProgress_def
      staleId_def atRequest2_simps processedOf_def totalOf_def)

lemma rd64_21_5: "rd64 (21 / 5) = Fin (4728779608739021 / 2 ^ 50)"
  unfolding rd64_def
  using round_near [of 2 "21 / 5" "- 1022" 53 4728779608739021 1023]
  by simp

lemma rd64_seconds_per_chunk:
  "rd64 (4728779608739021 / 2 ^ 50 / 3) = Fin (6305039478318695 / 2 ^ 52)"
  unfolding rd64_def
  using round_near [of 0 "4728779608739021 / 2 ^ 50 / 3" "- 1022" 53 6305039478318695 1023]
  by simp

lemma rd64_remaining_seconds:
  "rd64 (6305039478318695 / 2 ^ 52 * 5) = Fin (7881299347898369 / 2 ^ 50)"
  unfolding rd64_def
  using round_near [of 2 "6305039478318695 / 2 ^ 52 * 5" "- 1022" 53 7881299347898369 1023]
  by simp

lemma three_of_eight_estimate:
  "jceil (dmul (ddiv (ddiv (dsub (Fin (of_int 5200)) (Fin (of_int 1000))) (Fin 1000)) (Fin 3))
               (dsub (Fin 8) (Fin 3))) = Fin 8"
proof -
  have 1: "dsub (Fin (of_int 5200)) (Fin (of_int 1000)) = Fin 4200"
    by (simp add: dsub_def rd64_numeral)
  have 2: "ddiv (Fin 4200) (Fin 1000) = Fin (4728779608739021 / 2 ^ 50)"
    using rd64_21_5 by simp
  have 3: "ddiv (Fin (4728779608739021 / 2 ^ 50)) (Fin 3) = Fin (6305039478318695 / 2 ^ 52)"
    using rd64_seconds_per_chunk by simp
  have 4: "dsub (Fin 8) (Fin 3) = Fin 5"
    by (simp add: dsub_def rd64_numeral)
  have 5: "dmul (Fin (6305039478318695 / 2 ^ 52)) (Fin 5) = Fin (7881299347898369 / 2 ^ 50)"
    using rd64_remaining_seconds by simp
  have 6: "\<lceil>7881299347898369 / 2 ^ 50 :: rat\<rceil> = 8"
    by (rule ceiling_unique) simp_all
  show ?thesis unfolding 1 2 3 4 5 using 6 by simp
qed

text \<open>
  C5 as it is stated fails when its formula is read in exact arithmetic: with three of
  eight chunks done 4200 ms after the first progress message, the formula gives
  \<open>\<lceil>(4.2 / 3) * 5\<rceil> = 7\<close> and the page stores \<open>8\<close>, because the rounded quotient
  \<open>4.2 / 3\<close> times \<open>5\<close> is a double just above \<open>7\<close>.
\<close>

theorem eta_exceeds_exact_ceiling:
  "processedOf (message (last threeOfEight)) = Some 3
   \<and> totalOf (message (last threeOfEight)) = Some 8
   \<and> readAgainAt (last threeOfEight) - readAt (hd threeOfEight) = 4200
   \<and> \<lceil>(4200 / 1000 / 3) * (8 - 3) :: rat\<rceil> = 7
   \<and> etaSeconds (handleAll threeOfEight atRequest2) = Some (Fin 8)"
proof -
  have none: "transcribeStartedAt atRequest2 = None" by (simp add: atRequest2_simps)
  have "etaSeconds (handleAll threeOfEight atRequest2)
        = estimateRemaining 5200 1000 (Some 3) (Some 8)"
    using run_eta [OF threeOfEight_accepted(1,2) none] by (simp add: threeOfEight_accepted)
  also have "\<dots> = Some (Fin 8)"
    using estimate_some [of 3 8 5200 1000] three_of_eight_estimate by simp
  finally have e: "etaSeconds (handleAll threeOfEight atRequest2) = Some (Fin 8)" .
  have c: "\<lceil>(4200 / 1000 / 3) * (8 - 3) :: rat\<rceil> = 7" by simp
  from e c show ?thesis by (simp add: threeOfEight_accepted)
qed

theorem eta_estimate_witness:
  "threeOfEight \<noteq> []
   \<and> acceptedTranscribe (message (hd threeOfEight)) atRequest2
   \<and> acceptedTranscribe (message (last threeOfEight)) atRequest2
   \<and> transcribeStartedAt atRequest2 = None
   \<and> transcribeStartedAt (handleAll threeOfEight atRequest2) = Some 1000
   \<and> etaSeconds (handleAll threeOfEight atRequest2) = Some (Fin 8)
   \<and> etaSeconds (handleAll (butlast threeOfEight) atRequest2) = None"
proof -
  have none: "transcribeStartedAt atRequest2 = None" by (simp add: atRequest2_simps)
  note t = eta_estimate [OF threeOfEight_accepted(1,2) none]
  from t have a: "transcribeStartedAt (handleAll threeOfEight atRequest2) = Some 1000"
    by (simp add: threeOfEight_accepted)
  from t [THEN conjunct2, THEN conjunct1, rule_format, of 3 8]
  have b: "etaSeconds (handleAll threeOfEight atRequest2) = Some (Fin 8)"
    using three_of_eight_estimate by (simp add: threeOfEight_accepted)
  have bl: "butlast threeOfEight = [arrival 1000 (transcribeProgress 0 (Some 2) (Some 0) (Some 8))]"
    by (simp add: threeOfEight_def)
  have ne: "butlast threeOfEight \<noteq> []" by (simp add: bl)
  have acc: "\<forall>e\<in>set (butlast threeOfEight). acceptedTranscribe (message e) atRequest2"
    using threeOfEight_accepted(2) by (meson in_set_butlastD)
  have z: "processedOf (message (last (butlast threeOfEight))) = Some 0"
    by (simp add: bl arrival_def processedOf_def transcribeProgress_def)
  from eta_estimate [OF ne acc none, THEN conjunct2, THEN conjunct2, THEN conjunct1] z
  have c: "etaSeconds (handleAll (butlast threeOfEight) atRequest2) = None" by blast
  have hl: "acceptedTranscribe (message (hd threeOfEight)) atRequest2"
    "acceptedTranscribe (message (last threeOfEight)) atRequest2"
    using threeOfEight_accepted(1,2) by simp_all
  from a b c none threeOfEight_accepted(1) hl show ?thesis by blast
qed

section \<open>Properties of the audio normalizer\<close>

lemma fold_update_upt:
  "n \<le> length xs \<Longrightarrow>
   fold (\<lambda>i m. m[i := f i (m ! i)]) [0..<n] xs = map (\<lambda>i. f i (xs ! i)) [0..<n] @ drop n xs"
proof (induction n)
  case 0
  then show ?case by simp
next
  case (Suc n)
  then have n: "n < length xs" by simp
  let ?done = "map (\<lambda>i. f i (xs ! i)) [0..<n]"
  have len: "length ?done = n" by simp
  have d: "drop n xs = xs ! n # drop (Suc n) xs"
    using n by (simp add: Cons_nth_drop_Suc)
  have "fold (\<lambda>i m. m[i := f i (m ! i)]) [0..<Suc n] xs
        = (?done @ drop n xs)[n := f n ((?done @ drop n xs) ! n)]"
    using Suc by simp
  also have "(?done @ drop n xs) ! n = xs ! n"
    using len by (simp add: nth_append d)
  also have "(?done @ drop n xs)[n := f n (xs ! n)] = ?done @ (f n (xs ! n) # drop (Suc n) xs)"
    using len by (simp add: list_update_append d)
  finally show ?case by simp
qed

lemma fold_update_upt_full:
  "length xs = n \<Longrightarrow>
   fold (\<lambda>i m. m[i := f i (m ! i)]) [0..<n] xs = map (\<lambda>i. f i (xs ! i)) [0..<n]"
  by (simp add: fold_update_upt)

subsection \<open>Resampling at equal rates\<close>

text \<open>
  C8. Resampling a buffer from a rate to the same rate returns the buffer itself, for
  every buffer and every (finite) rate.
\<close>

theorem resample_identity: "resampleMonoAudio maxLen S r r = Inr S"
  by (simp add: resampleMonoAudio_def)

subsection \<open>Resampling at different rates\<close>

lemma resample_loop:
  "fold (\<lambda>i out. out[i := toFloat32 (resampleAt input ratio i)]) [0..<length fresh] fresh
   = map (\<lambda>i. toFloat32 (resampleAt input ratio i)) [0..<length fresh]"
  using fold_update_upt_full [of fresh "length fresh" "\<lambda>i _. toFloat32 (resampleAt input ratio i)"]
  by simp

lemma resample_unfold:
  assumes "inRate \<noteq> outRate"
  shows "resampleMonoAudio maxLen input inRate outRate
         = (case newFloat32Array maxLen (outputLength input (ddiv (Fin outRate) (Fin inRate))) of
              Inl e \<Rightarrow> Inl e
            | Inr fresh \<Rightarrow>
                Inr (map (\<lambda>i. toFloat32 (resampleAt input (ddiv (Fin outRate) (Fin inRate)) i))
                       [0..<length fresh]))"
  using assms
  by (simp add: resampleMonoAudio_def Let_def resample_loop del: ddiv.simps split: sum.splits)

lemma resampleAt_lerp:
  "resampleAt input ratio i
   = lerp (typed_get input (lowerIndex ratio i)) (typed_get input (upperIndex input ratio i))
       (weight ratio i)"
  by (simp add: resampleAt_def lerp_def)

lemma outputLength_cases:
  "outputLength input ratio = NaN \<or> outputLength input ratio = PInf
   \<or> (\<exists>k::int. 1 \<le> k \<and> outputLength input ratio = Fin (of_int k))"
proof (cases "dmul (Fin (of_nat (length input))) ratio")
  case (Fin a)
  have "max 1 (of_int \<lfloor>a + 1 / 2\<rfloor> :: rat) = of_int (max 1 \<lfloor>a + 1 / 2\<rfloor>)" by simp
  with Fin have "outputLength input ratio = Fin (of_int (max 1 \<lfloor>a + 1 / 2\<rfloor>))"
    by (simp add: outputLength_def)
  moreover have "1 \<le> max 1 \<lfloor>a + 1 / 2\<rfloor>" by simp
  ultimately show ?thesis by blast
next
  case PInf
  then show ?thesis by (simp add: outputLength_def)
next
  case NInf
  then have "outputLength input ratio = Fin (of_int 1)" by (simp add: outputLength_def)
  then show ?thesis by (metis order_refl)
next
  case NaN
  then show ?thesis by (simp add: outputLength_def)
qed

lemma newFloat32Array_int:
  "newFloat32Array maxLen (Fin (of_int k))
   = (if k < 0 \<or> 2 ^ 53 - 1 < k \<or> int maxLen < k then Inl RangeError
      else Inr (replicate (nat k) (Fin 0)))"
  by (simp add: newFloat32Array_def Let_def)

lemma resample_result:
  fixes input :: "jsnum list" and inRate outRate :: rat and maxLen :: nat and k :: int
  assumes "inRate \<noteq> outRate"
  defines "ratio \<equiv> ddiv (Fin outRate) (Fin inRate)"
  defines "len \<equiv> outputLength input ratio"
  defines "sample \<equiv> \<lambda>i. toFloat32 (resampleAt input ratio i)"
  shows "len = NaN \<Longrightarrow> resampleMonoAudio maxLen input inRate outRate = Inr []"
    and "len = PInf \<Longrightarrow> resampleMonoAudio maxLen input inRate outRate = Inl RangeError"
    and "len = Fin (of_int k) \<Longrightarrow> 2 ^ 53 - 1 < k \<or> int maxLen < k \<Longrightarrow>
           resampleMonoAudio maxLen input inRate outRate = Inl RangeError"
    and "len = Fin (of_int k) \<Longrightarrow> 1 \<le> k \<Longrightarrow> k \<le> 2 ^ 53 - 1 \<Longrightarrow> k \<le> int maxLen \<Longrightarrow>
           resampleMonoAudio maxLen input inRate outRate = Inr (map sample [0..<nat k])"
proof -
  note u = resample_unfold [OF assms(1), of maxLen input, folded ratio_def, folded len_def]
  show "len = NaN \<Longrightarrow> resampleMonoAudio maxLen input inRate outRate = Inr []"
    unfolding u by (simp add: newFloat32Array_def)
  show "len = PInf \<Longrightarrow> resampleMonoAudio maxLen input inRate outRate = Inl RangeError"
    unfolding u by (simp add: newFloat32Array_def)
  show "len = Fin (of_int k) \<Longrightarrow> 2 ^ 53 - 1 < k \<or> int maxLen < k \<Longrightarrow>
           resampleMonoAudio maxLen input inRate outRate = Inl RangeError"
    unfolding u by (auto simp: newFloat32Array_int)
  show "len = Fin (of_int k) \<Longrightarrow> 1 \<le> k \<Longrightarrow> k \<le> 2 ^ 53 - 1 \<Longrightarrow> k \<le> int maxLen \<Longrightarrow>
           resampleMonoAudio maxLen input inRate outRate = Inr (map sample [0..<nat k])"
    unfolding u sample_def by (simp add: newFloat32Array_int)
qed

text \<open>
  C6, as the code has it. For two distinct rates let \<open>ratio\<close> be the double \<open>R / R_in\<close>
  and \<open>len\<close> the number \<open>max(1, round(inputLength * ratio))\<close>, the product being a
  double. The call raises a \<^verbatim>\<open>RangeError\<close> exactly when \<open>len\<close> is infinite or exceeds
  what a typed array can hold. Otherwise it returns a buffer of length \<open>len\<close> (an empty
  buffer in the one case where \<open>len\<close> is \<^verbatim>\<open>NaN\<close>), and its sample at index \<open>i\<close> is
  the single-precision rounding of the linear interpolation, in double precision, between
  the input read at \<open>lower = floor(i / ratio)\<close> and the input read at
  \<open>min(lower + 1, inputLength - 1)\<close>, with weight \<open>i / ratio - lower\<close>.
\<close>

theorem resample_interpolates:
  fixes input :: "jsnum list" and inRate outRate :: rat and maxLen :: nat
  assumes "inRate \<noteq> outRate"
  defines "ratio \<equiv> ddiv (Fin outRate) (Fin inRate)"
  defines "len \<equiv> jmax (Fin 1) (jround (dmul (Fin (of_nat (length input))) ratio))"
  defines "pos \<equiv> \<lambda>i::nat. ddiv (Fin (of_nat i)) ratio"
  defines "lower \<equiv> \<lambda>i. jfloor (pos i)"
  defines "upper \<equiv> \<lambda>i. jmin (dadd (lower i) (Fin 1)) (dsub (Fin (of_nat (length input))) (Fin 1))"
  shows "(resampleMonoAudio maxLen input inRate outRate = Inl RangeError
          \<longleftrightarrow> len = PInf \<or> (\<exists>k::int. len = Fin (of_int k) \<and> (2 ^ 53 - 1 < k \<or> int maxLen < k)))
    \<and> (\<forall>out. resampleMonoAudio maxLen input inRate outRate = Inr out \<longrightarrow>
          (len = Fin (of_nat (length out)) \<or> len = NaN \<and> out = [])
          \<and> (\<forall>i<length out.
                out ! i = toFloat32 (lerp (typed_get input (lower i)) (typed_get input (upper i))
                                       (dsub (pos i) (lower i)))))"
proof -
  have len: "len = outputLength input ratio" by (simp add: len_def outputLength_def)
  have smp: "toFloat32 (resampleAt input ratio i)
             = toFloat32 (lerp (typed_get input (lower i)) (typed_get input (upper i))
                            (dsub (pos i) (lower i)))" for i
    by (simp add: resampleAt_lerp lowerIndex_def upperIndex_def weight_def sourceIndex_def
        lower_def upper_def pos_def)
  note r = resample_result [where input = input and maxLen = maxLen, OF assms(1),
      folded ratio_def, folded len]
  have cases: "len = NaN \<or> len = PInf \<or> (\<exists>k::int. 1 \<le> k \<and> len = Fin (of_int k))"
    unfolding len by (rule outputLength_cases)
  from cases show ?thesis
  proof (elim disjE exE conjE)
    assume "len = NaN"
    with r(1) show ?thesis by simp
  next
    assume "len = PInf"
    with r(2) show ?thesis by simp
  next
    fix k :: int
    assume k: "1 \<le> k" "len = Fin (of_int k)"
    show ?thesis
    proof (cases "2 ^ 53 - 1 < k \<or> int maxLen < k")
      case True
      from r(3) [OF k(2) True]
      have res: "resampleMonoAudio maxLen input inRate outRate = Inl RangeError" .
      from k(2) True
      have "\<exists>j::int. len = Fin (of_int j) \<and> (2 ^ 53 - 1 < j \<or> int maxLen < j)" by blast
      then show ?thesis by (simp add: res)
    next
      case False
      then have "k \<le> 2 ^ 53 - 1" "k \<le> int maxLen" by simp_all
      from r(4) [OF k(2) k(1) this] have res:
        "resampleMonoAudio maxLen input inRate outRate
         = Inr (map (\<lambda>i. toFloat32 (resampleAt input ratio i)) [0..<nat k])" .
      have l: "len = Fin (of_nat (length (map (\<lambda>i. toFloat32 (resampleAt input ratio i)) [0..<nat k])))"
        using k by simp
      have notbig: "\<not> (\<exists>j::int. len = Fin (of_int j) \<and> (2 ^ 53 - 1 < j \<or> int maxLen < j))"
      proof
        assume "\<exists>j::int. len = Fin (of_int j) \<and> (2 ^ 53 - 1 < j \<or> int maxLen < j)"
        then obtain j :: int where j: "len = Fin (of_int j)" "2 ^ 53 - 1 < j \<or> int maxLen < j"
          by blast
        from j(1) k(2) have "j = k" by simp
        with j(2) False show False by simp
      qed
      have notinf: "len \<noteq> PInf" using k(2) by simp
      have samples: "\<forall>i<length (map (\<lambda>i. toFloat32 (resampleAt input ratio i)) [0..<nat k]).
                map (\<lambda>i. toFloat32 (resampleAt input ratio i)) [0..<nat k] ! i
                = toFloat32 (lerp (typed_get input (lower i)) (typed_get input (upper i))
                               (dsub (pos i) (lower i)))"
        by (simp add: smp)
      show ?thesis unfolding res using l notbig notinf samples by blast
    qed
  qed
qed

lemma rd64_15_22: "rd64 (15 / 22) = Fin (6141272219141585 / 2 ^ 53)"
  unfolding rd64_def
  using round_near [of "- 1" "15 / 22" "- 1022" 53 6141272219141585 1023]
  by simp

lemma rd64_eleven_ratio:
  "rd64 (11 * (6141272219141585 / 2 ^ 53)) = Fin (8444249301319679 / 2 ^ 50)"
  unfolding rd64_def
  using round_near [of 2 "11 * (6141272219141585 / 2 ^ 53)" "- 1022" 53 8444249301319679 1023]
  by simp

lemma eleven_length:
  "jmax (Fin 1) (jround (dmul (Fin (of_nat (length (replicate 11 (Fin 0))))) (ddiv (Fin 15) (Fin 22))))
   = Fin (of_int 7)"
proof -
  have 1: "ddiv (Fin 15) (Fin 22) = Fin (6141272219141585 / 2 ^ 53)"
    using rd64_15_22 by simp
  have 2: "dmul (Fin 11) (Fin (6141272219141585 / 2 ^ 53)) = Fin (8444249301319679 / 2 ^ 50)"
    using rd64_eleven_ratio by simp
  have 3: "\<lfloor>8444249301319679 / 2 ^ 50 + 1 / 2 :: rat\<rfloor> = 7"
    by (rule floor_unique) simp_all
  show ?thesis unfolding 1 using 2 3 by simp
qed

lemma eleven_resampled:
  "resampleMonoAudio maxLen32 (replicate 11 (Fin 0)) 22 15
   = Inr (map (\<lambda>i. toFloat32 (resampleAt (replicate 11 (Fin 0)) (ddiv (Fin 15) (Fin 22)) i))
            [0..<7])"
proof -
  have ne: "(22::rat) \<noteq> 15" by simp
  have len: "outputLength (replicate 11 (Fin 0)) (ddiv (Fin 15) (Fin 22)) = Fin (of_int 7)"
    unfolding outputLength_def by (rule eleven_length)
  have "resampleMonoAudio maxLen32 (replicate 11 (Fin 0)) 22 15
        = Inr (map (\<lambda>i. toFloat32 (resampleAt (replicate 11 (Fin 0)) (ddiv (Fin 15) (Fin 22)) i))
                 [0..<nat 7])"
    by (rule resample_result(4) [OF ne len]) (simp_all add: maxLen32_def)
  then show ?thesis by simp
qed

lemma rd64_9_7: "rd64 (9 / 7) = Fin (5790342378047781 / 2 ^ 52)"
  unfolding rd64_def
  using round_near [of 0 "9 / 7" "- 1022" 53 5790342378047781 1023]
  by simp

lemma rd64_nine_back:
  "rd64 (9 / (5790342378047781 / 2 ^ 52)) = Fin (7881299347898367 / 2 ^ 50)"
  unfolding rd64_def
  using round_near [of 2 "9 / (5790342378047781 / 2 ^ 52)" "- 1022" 53 7881299347898367 1023]
  by simp

lemma ninth_lower: "lowerIndex (ddiv (Fin 9) (Fin 7)) 9 = Fin 6"
proof -
  have 1: "ddiv (Fin 9) (Fin 7) = Fin (5790342378047781 / 2 ^ 52)"
    using rd64_9_7 by simp
  have 2: "ddiv (Fin 9) (Fin (5790342378047781 / 2 ^ 52)) = Fin (7881299347898367 / 2 ^ 50)"
    using rd64_nine_back by simp
  have 3: "\<lfloor>7881299347898367 / 2 ^ 50 :: rat\<rfloor> = 6"
    by (rule floor_unique) simp_all
  show ?thesis unfolding lowerIndex_def sourceIndex_def 1 using 2 3 by simp
qed

text \<open>
  C6 as it is stated fails when its formulas are read in exact arithmetic. For eleven
  samples resampled from rate 22 to rate 15 the length formula gives
  \<open>max(1, round(11 * 15 / 22)) = 8\<close>, and the code returns seven samples, because the
  double \<open>15 / 22\<close> times \<open>11\<close> is a double just below \<open>7.5\<close>. From rate 7 to rate 9 the
  source index of output index 9 is \<open>floor(9 * 7 / 9) = 7\<close> by the formula, and the code
  reads from index 6, because \<open>9\<close> divided by the double \<open>9 / 7\<close> is a double just
  below \<open>7\<close>.
\<close>

theorem resample_length_below_formula:
  "max 1 \<lfloor>of_nat (length (replicate 11 (Fin 0))) * (15 / 22) + 1 / 2 :: rat\<rfloor> = 8
   \<and> (case resampleMonoAudio maxLen32 (replicate 11 (Fin 0)) 22 15 of
        Inr out \<Rightarrow> int (length out) | Inl e \<Rightarrow> 0) = 7
   \<and> \<lfloor>9 * 7 / 9 :: rat\<rfloor> = 7
   \<and> lowerIndex (ddiv (Fin 9) (Fin 7)) 9 = Fin 6"
proof -
  have "\<lfloor>of_nat (length (replicate 11 (Fin 0))) * (15 / 22) + 1 / 2 :: rat\<rfloor> = 8"
    by (rule floor_unique) simp_all
  then show ?thesis unfolding eleven_resampled ninth_lower by simp
qed

theorem resample_interpolates_witness:
  "(22::rat) \<noteq> 15
   \<and> (case resampleMonoAudio maxLen32 (replicate 11 (Fin 0)) 22 15 of
        Inr out \<Rightarrow> length out = 7 \<and> out ! 0 = Fin 0 | Inl e \<Rightarrow> False)"
proof -
  have ne: "(22::rat) \<noteq> 15" by simp
  note t = resample_interpolates [OF ne, of maxLen32 "replicate 11 (Fin 0)"]
  let ?res = "resampleMonoAudio maxLen32 (replicate 11 (Fin 0)) 22 15"
  have lim: "\<not> (2 ^ 53 - 1 < (7::int) \<or> int maxLen32 < 7)" by (simp add: maxLen32_def)
  have "?res \<noteq> Inl RangeError"
  proof
    assume "?res = Inl RangeError"
    with t [THEN conjunct1] obtain k :: int
      where k: "Fin (of_int 7) = Fin (of_int k)" "2 ^ 53 - 1 < k \<or> int maxLen32 < k"
      unfolding eleven_length by auto
    from k(1) have "k = 7" by simp
    with k(2) lim show False by simp
  qed
  then obtain out where out: "?res = Inr out"
    by (cases ?res) (auto intro: js_error.exhaust)
  from t [THEN conjunct2, rule_format, OF out]
  have l: "Fin (of_int 7) = Fin (of_nat (length out)) \<or> Fin (of_int 7) = NaN \<and> out = []"
    and s: "\<forall>i<length out.
              out ! i = toFloat32 (lerp
                (typed_get (replicate 11 (Fin 0)) (jfloor (ddiv (Fin (of_nat i)) (ddiv (Fin 15) (Fin 22)))))
                (typed_get (replicate 11 (Fin 0))
                   (jmin (dadd (jfloor (ddiv (Fin (of_nat i)) (ddiv (Fin 15) (Fin 22)))) (Fin 1))
                         (dsub (Fin (of_nat (length (replicate 11 (Fin 0))))) (Fin 1))))
                (dsub (ddiv (Fin (of_nat i)) (ddiv (Fin 15) (Fin 22)))
                      (jfloor (ddiv (Fin (of_nat i)) (ddiv (Fin 15) (Fin 22))))))"
    unfolding eleven_length by simp_all
  from l have len: "length out = 7" by simp
  have r: "ddiv (Fin 15) (Fin 22) = Fin (6141272219141585 / 2 ^ 53)"
    using rd64_15_22 by simp
  from s len have "out ! 0 = toFloat32 (lerp
                (typed_get (replicate 11 (Fin 0)) (jfloor (ddiv (Fin (of_nat 0)) (ddiv (Fin 15) (Fin 22)))))
                (typed_get (replicate 11 (Fin 0))
                   (jmin (dadd (jfloor (ddiv (Fin (of_nat 0)) (ddiv (Fin 15) (Fin 22)))) (Fin 1))
                         (dsub (Fin (of_nat (length (replicate 11 (Fin 0))))) (Fin 1))))
                (dsub (ddiv (Fin (of_nat 0)) (ddiv (Fin 15) (Fin 22)))
                      (jfloor (ddiv (Fin (of_nat 0)) (ddiv (Fin 15) (Fin 22))))))"
    by simp
  also have "\<dots> = Fin 0"
    unfolding r by (simp add: typed_get_def lerp_def dsub_def rd64_numeral)
  finally have "out ! 0 = Fin 0" .
  with len out ne show ?thesis by simp
qed

end
